theory Spec2Isabelle
  imports Main "HOL-Library.Multiset" "HOL-Library.AList"
begin

section \<open>Data model of \<^verbatim>\<open>server.js\<close>\<close>

text \<open>
  The session engine of \<^verbatim>\<open>src/server.js\<close>: lobbies, players, the two card supplies, the
  round state machine and the socket handlers. Every handler runs to completion before the
  next one starts, so a handler is a function from the server state to the new server state
  and the list of messages it emitted. A JavaScript \<^verbatim>\<open>TypeError\<close> thrown inside a handler
  is the value \<open>Inl TypeError\<close>, and a loop that never ends is \<open>Inl NoReturn\<close>.
\<close>

datatype game_state = waiting | playing | judging | roundOver | gameOver

datatype error = TypeError | NoReturn

text \<open>A white card and a black card as \<^verbatim>\<open>getPacks\<close> hands them out: the text and the
  identifier \<^verbatim>\<open>w_N\<close> or \<^verbatim>\<open>b_N\<close>. \<open>pick\<close> is \<open>None\<close> when the
  property is absent.\<close>

record wcard =
  wid :: string
  wtext :: string

record bcard =
  bid :: string
  btext :: string
  pick :: "int option"

record submission =
  playerId :: string
  playerName :: string
  cards :: "wcard list"

record winner_info =
  winnerName :: string
  winningCardsText :: "string list"
  blackCardText :: string

record player =
  pid :: string
  name :: string
  score :: int
  hand :: "wcard list"
  submittedCards :: "wcard list option"

record lobby_settings =
  scoreToWin :: int
  maxPlayers :: int
  selectedPackIndexes :: "nat list"
  isPrivate :: bool

record lobby =
  code :: string
  players :: "player list"
  hostId :: string
  gameState :: game_state
  settings :: lobby_settings
  whiteDeck :: "wcard list"
  blackDeck :: "bcard list"
  whiteDiscard :: "wcard list"
  blackDiscard :: "bcard list"
  currentBlackCard :: "bcard option"
  czarId :: "string option"
  roundSubmissions :: "submission list"
  roundWinnerInfo :: "winner_info option"

text \<open>One pack of the loaded catalogue (\<^verbatim>\<open>CAHDeck.deck[i]\<close>): white texts, and black
  texts with their pick.\<close>

record pack =
  pname :: string
  pwhite :: "string list"
  pblack :: "(string \<times> int option) list"

text \<open>What a handler sends. The payload of \<^verbatim>\<open>lobbyUpdate\<close> is the public projection
  that \<^verbatim>\<open>broadcastLobbyState\<close> builds from the lobby; it is kept as the lobby it was built
  from.\<close>

datatype game_error = NeedThreePlayers | InvalidSubmission int | InvalidCard

datatype payload =
    LobbyUpdate lobby
  | HandUpdate "wcard list"
  | GameErrorMsg game_error
  | GameMessage string
  | GameOverNoBlackCards
  | GameOverNotEnoughPlayers
  | GameOverWinner string
  | Reply bool string

datatype emit = ToSocket string payload | ToRoom string payload

text \<open>The server: the registry \<^verbatim>\<open>lobbies\<close> in its enumeration order (insertion order),
  the configuration flags, the loaded catalogue, the pending \<^verbatim>\<open>setTimeout\<close> callbacks
  (all with the same delay, so they fire in the order they were set), and
  \<^verbatim>\<open>Math.random\<close>: \<open>rnd k\<close> determines the value of the \<open>k\<close>-th call and \<open>calls\<close>
  counts the calls made so far. \<open>codeOf x\<close> is the five-character lobby code that
  \<^verbatim>\<open>toString (36).substring (2, 7).toUpperCase ()\<close> makes of the random value \<open>x\<close>.\<close>

record world =
  lobbies :: "(string \<times> lobby) list"
  allowSameNames :: bool
  roomsFunctionality :: bool
  deck :: "pack list"
  timers :: "string list"
  rnd :: "nat \<Rightarrow> nat"
  codeOf :: "nat \<Rightarrow> string"
  calls :: nat

definition MAX_HAND_SIZE :: int where
  "MAX_HAND_SIZE = 10"

section \<open>Array helpers\<close>

text \<open>\<^verbatim>\<open>Array.prototype.findIndex\<close>: the first index whose element satisfies the
  predicate, \<open>-1\<close> when there is none.\<close>

fun findIndexFrom :: "('a \<Rightarrow> bool) \<Rightarrow> 'a list \<Rightarrow> int \<Rightarrow> int" where
  "findIndexFrom P [] k = - 1"
| "findIndexFrom P (x # xs) k = (if P x then k else findIndexFrom P xs (k + 1))"

definition findIndex :: "('a \<Rightarrow> bool) \<Rightarrow> 'a list \<Rightarrow> int" where
  "findIndex P xs = findIndexFrom P xs 0"

text \<open>\<^verbatim>\<open>Array.prototype.pop\<close>: the last element (\<^verbatim>\<open>undefined\<close> on an empty array) and
  the array without it.\<close>

definition pop :: "'a list \<Rightarrow> 'a option \<times> 'a list" where
  "pop xs = (if xs = [] then (None, []) else (Some (last xs), butlast xs))"

text \<open>\<^verbatim>\<open>shuffleArray\<close>: for \<open>i\<close> from \<open>length - 1\<close> down to \<open>1\<close>, swap position \<open>i\<close>
  with position \<open>j = floor (Math.random () * (i + 1))\<close>, which is any index in \<open>0..i\<close>.\<close>

fun shuffleLoop :: "(nat \<Rightarrow> nat) \<Rightarrow> nat \<Rightarrow> 'a list \<Rightarrow> nat \<Rightarrow> 'a list \<times> nat" where
  "shuffleLoop r 0 a k = (a, k)"
| "shuffleLoop r (Suc i) a k =
     (let j = r k mod (Suc i + 1)
      in shuffleLoop r i (a[Suc i := a ! j, j := a ! Suc i]) (Suc k))"

definition shuffleArray :: "(nat \<Rightarrow> nat) \<Rightarrow> 'a list \<Rightarrow> nat \<Rightarrow> 'a list \<times> nat" where
  "shuffleArray r a k = shuffleLoop r (length a - 1) a k"

definition getLobbyPlayer :: "lobby \<Rightarrow> string \<Rightarrow> player option" where
  "getLobbyPlayer l i = find (\<lambda>p. pid p = i) (players l)"

section \<open>Card supply\<close>

text \<open>The reshuffle of \<^verbatim>\<open>dealWhiteCards\<close>: the discard pile is copied into the draw pile,
  the discard pile is emptied and the draw pile is shuffled.\<close>

definition reshuffleWhite :: "(nat \<Rightarrow> nat) \<Rightarrow> lobby \<Rightarrow> nat \<Rightarrow> lobby \<times> nat" where
  "reshuffleWhite r l k =
     (let (d, k') = shuffleArray r (whiteDiscard l) k
      in (l\<lparr>whiteDeck := d, whiteDiscard := []\<rparr>, k'))"

text \<open>The tail of one loop iteration of \<^verbatim>\<open>dealWhiteCards\<close>: if the draw pile is not empty,
  its last card is pushed onto the hand of the player at index \<open>i\<close>.\<close>

definition dealOne :: "lobby \<Rightarrow> nat \<Rightarrow> lobby" where
  "dealOne l i =
     (if length (whiteDeck l) > 0 then
        (case pop (whiteDeck l) of
           (Some c, rest) \<Rightarrow>
             l\<lparr>whiteDeck := rest,
               players := (players l)[i := (players l ! i)\<lparr>hand := hand (players l ! i) @ [c]\<rparr>]\<rparr>
         | (None, rest) \<Rightarrow> l)
      else l)"

text \<open>\<^verbatim>\<open>dealWhiteCards (lobby, player, count)\<close>, the player given by its index in the
  roster. The loop stops early (\<^verbatim>\<open>break\<close>) when both piles are empty.\<close>

fun dealWhiteCards :: "(nat \<Rightarrow> nat) \<Rightarrow> lobby \<Rightarrow> nat \<Rightarrow> nat \<Rightarrow> nat \<Rightarrow> lobby \<times> nat" where
  "dealWhiteCards r l i 0 k = (l, k)"
| "dealWhiteCards r l i (Suc n) k =
     (if length (whiteDeck l) = 0 then
        (if length (whiteDiscard l) = 0 then (l, k)
         else (let (l', k') = reshuffleWhite r l k
               in dealWhiteCards r (dealOne l' i) i n k'))
      else dealWhiteCards r (dealOne l i) i n k)"

text \<open>The reshuffle of the black supply in \<^verbatim>\<open>startNextRound\<close>.\<close>

definition reshuffleBlack :: "(nat \<Rightarrow> nat) \<Rightarrow> lobby \<Rightarrow> nat \<Rightarrow> lobby \<times> nat" where
  "reshuffleBlack r l k =
     (let (d, k') = shuffleArray r (blackDiscard l) k
      in (l\<lparr>blackDeck := d, blackDiscard := []\<rparr>, k'))"

section \<open>Starting a round\<close>

text \<open>The \<^verbatim>\<open>forEach\<close> that tops up every hand to \<^verbatim>\<open>MAX_HAND_SIZE\<close> and sends each player
  its hand, over the roster indices in order.\<close>

definition replenishStep :: "(nat \<Rightarrow> nat) \<Rightarrow> nat \<Rightarrow> lobby \<times> nat \<times> emit list \<Rightarrow> lobby \<times> nat \<times> emit list" where
  "replenishStep r i s =
     (case s of (l, k, out) \<Rightarrow>
        (let cardsNeeded = MAX_HAND_SIZE - int (length (hand (players l ! i)));
             (l', k') = (if cardsNeeded > 0 then dealWhiteCards r l i (nat cardsNeeded) k else (l, k))
         in (l', k', out @ [ToSocket (pid (players l' ! i)) (HandUpdate (hand (players l' ! i)))])))"

definition replenishHands :: "(nat \<Rightarrow> nat) \<Rightarrow> lobby \<Rightarrow> nat \<Rightarrow> lobby \<times> nat \<times> emit list" where
  "replenishHands r l k = fold (replenishStep r) [0..<length (players l)] (l, k, [])"

text \<open>The rest of \<^verbatim>\<open>startNextRound\<close> once the black draw pile is known to hold a card:
  the previous prompt goes to the black discard pile, the new prompt is popped, every hand
  is topped up and the lobby is broadcast.\<close>

definition drawPrompt :: "(nat \<Rightarrow> nat) \<Rightarrow> string \<Rightarrow> lobby \<Rightarrow> nat \<Rightarrow> lobby \<times> nat \<times> emit list" where
  "drawPrompt r c l k =
     (let l4 = (case currentBlackCard l of
                  Some b \<Rightarrow> l\<lparr>blackDiscard := blackDiscard l @ [b]\<rparr>
                | None \<Rightarrow> l);
          l5 = (case pop (blackDeck l4) of
                  (b, rest) \<Rightarrow> l4\<lparr>currentBlackCard := b, blackDeck := rest\<rparr>);
          (l6, k6, out) = replenishHands r l5 k
      in (l6, k6, out @ [ToRoom c (LobbyUpdate l6)]))"

text \<open>The body of \<^verbatim>\<open>startNextRound\<close> on the lobby it found. With an empty roster
  \<^verbatim>\<open>lobby.players[NaN].id\<close> throws.\<close>

definition nextRound :: "(nat \<Rightarrow> nat) \<Rightarrow> string \<Rightarrow> lobby \<Rightarrow> nat \<Rightarrow> error + (lobby \<times> nat \<times> emit list)" where
  "nextRound r c l k =
     (let l1 = l\<lparr>gameState := playing, roundSubmissions := [], roundWinnerInfo := None,
                  players := map (\<lambda>p. p\<lparr>submittedCards := None\<rparr>) (players l)\<rparr>;
          currentCzarIndex = findIndex (\<lambda>p. Some (pid p) = czarId l1) (players l1)
      in if players l1 = [] then Inl TypeError
         else
           (let l2 = l1\<lparr>czarId :=
                  Some (pid (players l1 ! nat ((currentCzarIndex + 1) mod int (length (players l1)))))\<rparr>
            in if length (blackDeck l2) = 0 then
                 (if length (blackDiscard l2) = 0 then
                    (let l3 = l2\<lparr>gameState := gameOver\<rparr>
                     in Inr (l3, k, [ToRoom c GameOverNoBlackCards, ToRoom c (LobbyUpdate l3)]))
                  else (let (l3, k3) = reshuffleBlack r l2 k in Inr (drawPrompt r c l3 k3)))
               else Inr (drawPrompt r c l2 k)))"

section \<open>The registry\<close>

definition getLobby :: "world \<Rightarrow> string \<Rightarrow> lobby option" where
  "getLobby w c = map_of (lobbies w) c"

definition putLobby :: "string \<Rightarrow> lobby \<Rightarrow> world \<Rightarrow> world" where
  "putLobby c l w = w\<lparr>lobbies := AList.update c l (lobbies w)\<rparr>"

definition deleteLobby :: "string \<Rightarrow> world \<Rightarrow> world" where
  "deleteLobby c w = w\<lparr>lobbies := AList.delete c (lobbies w)\<rparr>"

text \<open>\<^verbatim>\<open>broadcastLobbyState\<close>: nothing is sent when the lobby is gone.\<close>

definition broadcastLobbyState :: "string \<Rightarrow> world \<Rightarrow> emit list" where
  "broadcastLobbyState c w =
     (case getLobby w c of None \<Rightarrow> [] | Some l \<Rightarrow> [ToRoom c (LobbyUpdate l)])"

text \<open>\<^verbatim>\<open>startNextRound (lobbyCode)\<close>.\<close>

definition startNextRound :: "string \<Rightarrow> world \<Rightarrow> error + (world \<times> emit list)" where
  "startNextRound c w =
     (case getLobby w c of
        None \<Rightarrow> Inr (w, [])
      | Some l \<Rightarrow>
          (case nextRound (rnd w) c l (calls w) of
             Inl e \<Rightarrow> Inl e
           | Inr (l', k', out) \<Rightarrow> Inr ((putLobby c l' w)\<lparr>calls := k'\<rparr>, out)))"

text \<open>\<^verbatim>\<open>generateLobbyCode\<close>: draw codes until one is not in the registry. The loop has
  no bound, so it is a partial function: \<open>None\<close> when it never ends.\<close>

partial_function (option) generateLobbyCode ::
    "(string \<times> lobby) list \<Rightarrow> (nat \<Rightarrow> string) \<Rightarrow> nat \<Rightarrow> (string \<times> nat) option" where
  "generateLobbyCode ls cs k =
     (if map_of ls (cs k) \<noteq> None then generateLobbyCode ls cs (Suc k) else Some (cs k, Suc k))"

declare generateLobbyCode.simps [code]

section \<open>The catalogue\<close>

definition digit :: "nat \<Rightarrow> char" where
  "digit d = char_of (48 + d)"

fun showNat :: "nat \<Rightarrow> string" where
  "showNat n = (if n < 10 then [digit n] else showNat (n div 10) @ [digit (n mod 10)])"

declare showNat.simps [simp del]

text \<open>\<^verbatim>\<open>CAHDeck.getPacks\<close>: the cards of the requested packs, each given a fresh identifier
  from one counter shared by both colours; an index with no pack is skipped, and an empty
  request means every pack.\<close>

fun getPacksLoop :: "pack list \<Rightarrow> nat list \<Rightarrow> nat \<Rightarrow> wcard list \<Rightarrow> bcard list \<Rightarrow> wcard list \<times> bcard list" where
  "getPacksLoop d [] n ws bs = (ws, bs)"
| "getPacksLoop d (i # is) n ws bs =
     (if i < length d then
        (let p = d ! i;
             nw = length (pwhite p);
             nb = length (pblack p);
             ws' = map (\<lambda>(t, m). \<lparr>wid = ''w_'' @ showNat m, wtext = t\<rparr>) (zip (pwhite p) [n..<n + nw]);
             bs' = map (\<lambda>((t, pk), m). \<lparr>bid = ''b_'' @ showNat m, btext = t, pick = pk\<rparr>)
                       (zip (pblack p) [n + nw..<n + nw + nb])
         in getPacksLoop d is (n + nw + nb) (ws @ ws') (bs @ bs'))
      else getPacksLoop d is n ws bs)"

definition getPacks :: "pack list \<Rightarrow> nat list \<Rightarrow> wcard list \<times> bcard list" where
  "getPacks d indexes =
     getPacksLoop d (if length indexes = 0 then [0..<length d] else indexes) 0 [] []"

section \<open>The socket handlers\<close>

text \<open>The \<^verbatim>\<open>settings\<close> object a client sends: any of its properties may be absent.\<close>

record settings_in =
  scoreToWin_in :: "int option"
  maxPlayers_in :: "int option"
  selectedPackIndexes_in :: "nat list option"
  isPrivate_in :: "bool option"

text \<open>\<^verbatim>\<open>settings?.x || d\<close> on a number: an absent property and \<open>0\<close> both give the
  default.\<close>

definition orDefault :: "int option \<Rightarrow> int \<Rightarrow> int" where
  "orDefault v d = (case v of None \<Rightarrow> d | Some n \<Rightarrow> if n = 0 then d else n)"

definition newPlayer :: "string \<Rightarrow> string \<Rightarrow> player" where
  "newPlayer sid nm =
     \<lparr>pid = sid, name = nm, score = 0, hand = [], submittedCards = None\<rparr>"

text \<open>\<^verbatim>\<open>String.prototype.toLowerCase\<close> on ASCII letters.\<close>

definition lowerChar :: "char \<Rightarrow> char" where
  "lowerChar ch =
     (if 65 \<le> (of_char ch :: nat) \<and> (of_char ch :: nat) \<le> 90
      then char_of ((of_char ch :: nat) + 32) else ch)"

definition toLowerCase :: "string \<Rightarrow> string" where
  "toLowerCase s = map lowerChar s"

definition createLobby :: "string \<Rightarrow> string \<Rightarrow> settings_in option \<Rightarrow> world \<Rightarrow> error + (world \<times> emit list)" where
  "createLobby sid nm st w =
     (case generateLobbyCode (lobbies w) (\<lambda>k. codeOf w (rnd w k)) (calls w) of
        None \<Rightarrow> Inl NoReturn
      | Some (c, k') \<Rightarrow>
          (let l = \<lparr>code = c, players = [newPlayer sid nm], hostId = sid, gameState = waiting,
                    settings =
                      \<lparr>scoreToWin = orDefault (Option.bind st scoreToWin_in) 7,
                       maxPlayers = orDefault (Option.bind st maxPlayers_in) 10,
                       selectedPackIndexes =
                         (case Option.bind st selectedPackIndexes_in of None \<Rightarrow> [0] | Some is \<Rightarrow> is),
                       isPrivate =
                         (if roomsFunctionality w
                          then (case Option.bind st isPrivate_in of None \<Rightarrow> False | Some b \<Rightarrow> b)
                          else True)\<rparr>,
                    whiteDeck = [], blackDeck = [], whiteDiscard = [], blackDiscard = [],
                    currentBlackCard = None, czarId = None, roundSubmissions = [],
                    roundWinnerInfo = None\<rparr>;
               w' = (putLobby c l w)\<lparr>calls := k'\<rparr>
           in Inr (w', ToSocket sid (Reply True c) # broadcastLobbyState c w')))"

definition joinLobby :: "string \<Rightarrow> string \<Rightarrow> string \<Rightarrow> world \<Rightarrow> error + (world \<times> emit list)" where
  "joinLobby sid c nm w =
     (case getLobby w c of
        None \<Rightarrow> Inr (w, [ToSocket sid (Reply False ''Lobby not found.'')])
      | Some l \<Rightarrow>
          if int (length (players l)) \<ge> maxPlayers (settings l) then
            Inr (w, [ToSocket sid (Reply False ''Lobby is full.'')])
          else if gameState l \<noteq> waiting then
            Inr (w, [ToSocket sid (Reply False ''Game has already started.'')])
          else if \<not> allowSameNames w
                  \<and> list_ex (\<lambda>p. toLowerCase (name p) = toLowerCase nm) (players l) then
            Inr (w, [ToSocket sid (Reply False ''Player name already taken in this lobby.'')])
          else
            (let p = newPlayer sid nm;
                 w' = putLobby c (l\<lparr>players := players l @ [p]\<rparr>) w
             in Inr (w', ToSocket sid (Reply True c) # broadcastLobbyState c w'
                         @ [ToSocket sid (HandUpdate (hand p))])))"

text \<open>\<^verbatim>\<open>updateSettings\<close>: the properties the client sent replace the stored ones. Reading
  \<^verbatim>\<open>settings.isPrivate\<close> of an absent \<^verbatim>\<open>settings\<close> throws.\<close>

definition mergeSettings :: "lobby_settings \<Rightarrow> settings_in \<Rightarrow> lobby_settings" where
  "mergeSettings s n =
     \<lparr>scoreToWin = (case scoreToWin_in n of None \<Rightarrow> scoreToWin s | Some v \<Rightarrow> v),
      maxPlayers = (case maxPlayers_in n of None \<Rightarrow> maxPlayers s | Some v \<Rightarrow> v),
      selectedPackIndexes =
        (case selectedPackIndexes_in n of None \<Rightarrow> selectedPackIndexes s | Some v \<Rightarrow> v),
      isPrivate = (case isPrivate_in n of None \<Rightarrow> isPrivate s | Some v \<Rightarrow> v)\<rparr>"

definition updateSettings :: "string \<Rightarrow> string \<Rightarrow> settings_in option \<Rightarrow> world \<Rightarrow> error + (world \<times> emit list)" where
  "updateSettings sid c st w =
     (case getLobby w c of
        None \<Rightarrow> Inr (w, [])
      | Some l \<Rightarrow>
          if hostId l = sid \<and> gameState l = waiting then
            (case st of
               None \<Rightarrow>
                 if roomsFunctionality w then Inl TypeError
                 else (let w' = putLobby c l w in Inr (w', broadcastLobbyState c w'))
             | Some n \<Rightarrow>
                 (let s1 = (if roomsFunctionality w
                            then (case isPrivate_in n of
                                    None \<Rightarrow> settings l
                                  | Some b \<Rightarrow> (settings l)\<lparr>isPrivate := b\<rparr>)
                            else settings l);
                      w' = putLobby c (l\<lparr>settings := mergeSettings s1 n\<rparr>) w
                  in Inr (w', broadcastLobbyState c w')))
          else Inr (w, []))"

text \<open>The \<^verbatim>\<open>forEach\<close> of \<^verbatim>\<open>startGame\<close>: score and hand are reset, ten cards are dealt and
  the hand is sent.\<close>

definition initialDealStep :: "(nat \<Rightarrow> nat) \<Rightarrow> nat \<Rightarrow> lobby \<times> nat \<times> emit list \<Rightarrow> lobby \<times> nat \<times> emit list" where
  "initialDealStep r i s =
     (case s of (l, k, out) \<Rightarrow>
        (let l0 = l\<lparr>players := (players l)[i := (players l ! i)\<lparr>score := 0, hand := []\<rparr>]\<rparr>;
             (l', k') = dealWhiteCards r l0 i (nat MAX_HAND_SIZE) k
         in (l', k', out @ [ToSocket (pid (players l' ! i)) (HandUpdate (hand (players l' ! i)))])))"

definition startGame :: "string \<Rightarrow> string \<Rightarrow> world \<Rightarrow> error + (world \<times> emit list)" where
  "startGame sid c w =
     (case getLobby w c of
        None \<Rightarrow> Inr (w, [])
      | Some l \<Rightarrow>
          if hostId l \<noteq> sid \<or> gameState l \<noteq> waiting then Inr (w, [])
          else if length (players l) < 3 then Inr (w, [ToSocket sid (GameErrorMsg NeedThreePlayers)])
          else
            (let (gw, gb) = getPacks (deck w) (selectedPackIndexes (settings l));
                 (wd, k1) = shuffleArray (rnd w) gw (calls w);
                 (bd, k2) = shuffleArray (rnd w) gb k1;
                 l1 = l\<lparr>whiteDeck := wd, blackDeck := bd, whiteDiscard := [], blackDiscard := []\<rparr>;
                 (l2, k3, out) = fold (initialDealStep (rnd w)) [0..<length (players l1)] (l1, k2, []);
                 l3 = l2\<lparr>czarId := Some (pid (players l2 ! 0))\<rparr>
             in (case startNextRound c ((putLobby c l3 w)\<lparr>calls := k3\<rparr>) of
                   Inl e \<Rightarrow> Inl e
                 | Inr (w', out') \<Rightarrow> Inr (w', out @ out'))))"

text \<open>The loop of \<^verbatim>\<open>submitCards\<close> that resolves the submitted identifiers against the hand:
  \<open>None\<close> as soon as one identifier is not in the hand.\<close>

fun resolveCards :: "wcard list \<Rightarrow> string list \<Rightarrow> wcard list option" where
  "resolveCards h [] = Some []"
| "resolveCards h (i # is) =
     (case find (\<lambda>c. wid c = i) h of
        None \<Rightarrow> None
      | Some c \<Rightarrow> (case resolveCards h is of None \<Rightarrow> None | Some cs \<Rightarrow> Some (c # cs)))"

text \<open>A mutation of the object that \<^verbatim>\<open>find\<close> returned: the first element that satisfies
  the predicate is replaced.\<close>

fun updateFirst :: "('a \<Rightarrow> bool) \<Rightarrow> ('a \<Rightarrow> 'a) \<Rightarrow> 'a list \<Rightarrow> 'a list" where
  "updateFirst P f [] = []"
| "updateFirst P f (x # xs) = (if P x then f x # xs else x # updateFirst P f xs)"

text \<open>\<^verbatim>\<open>lobby.currentBlackCard.pick || 1\<close>.\<close>

definition pickCount :: "bcard \<Rightarrow> int" where
  "pickCount b = orDefault (pick b) 1"

text \<open>\<^verbatim>\<open>submitCards\<close>. \<open>cardIds\<close> is \<open>None\<close> when the client did not send an array.
  \<^verbatim>\<open>getLobbyPlayer\<close> is called before the lobby is checked, so an unknown lobby code
  throws.\<close>

definition submitCards :: "string \<Rightarrow> string \<Rightarrow> string list option \<Rightarrow> world \<Rightarrow> error + (world \<times> emit list)" where
  "submitCards sid c cardIds w =
     (case getLobby w c of
        None \<Rightarrow> Inl TypeError
      | Some l \<Rightarrow>
          (case getLobbyPlayer l sid of
             None \<Rightarrow> Inr (w, [])
           | Some player \<Rightarrow>
               if gameState l \<noteq> playing \<or> Some (pid player) = czarId l \<or> submittedCards player \<noteq> None
               then Inr (w, [])
               else
                 (case currentBlackCard l of
                    None \<Rightarrow> Inl TypeError
                  | Some b \<Rightarrow>
                      (case cardIds of
                         None \<Rightarrow> Inr (w, [ToSocket sid (GameErrorMsg (InvalidSubmission (pickCount b)))])
                       | Some ids \<Rightarrow>
                           if int (length ids) \<noteq> pickCount b then
                             Inr (w, [ToSocket sid (GameErrorMsg (InvalidSubmission (pickCount b)))])
                           else
                             (case resolveCards (hand player) ids of
                                None \<Rightarrow> Inr (w, [ToSocket sid (GameErrorMsg InvalidCard)])
                              | Some submittedCardsObjects \<Rightarrow>
                                  (let newHand = filter (\<lambda>card. \<not> List.member ids (wid card)) (hand player);
                                       l1 = l\<lparr>players :=
                                               updateFirst (\<lambda>p. pid p = sid)
                                                 (\<lambda>p. p\<lparr>submittedCards := Some submittedCardsObjects,
                                                         hand := newHand\<rparr>)
                                                 (players l),
                                             roundSubmissions := roundSubmissions l @
                                               [\<lparr>playerId = pid player, playerName = name player,
                                                 cards = submittedCardsObjects\<rparr>]\<rparr>;
                                       out = [ToSocket sid (HandUpdate newHand), ToRoom c (LobbyUpdate l1)];
                                       nonCzars = filter (\<lambda>p. Some (pid p) \<noteq> czarId l1) (players l1)
                                   in if length (roundSubmissions l1) = length nonCzars then
                                        (let (subs, k') = shuffleArray (rnd w) (roundSubmissions l1) (calls w);
                                             l2 = l1\<lparr>gameState := judging, roundSubmissions := subs\<rparr>
                                         in Inr ((putLobby c l2 w)\<lparr>calls := k'\<rparr>,
                                                 out @ [ToRoom c (LobbyUpdate l2)]))
                                      else Inr (putLobby c l1 w, out)))))))"

text \<open>\<^verbatim>\<open>selectWinner\<close>. The winner is looked up in the roster with no check that the lookup
  found a player; \<^verbatim>\<open>winner.score++\<close> on \<^verbatim>\<open>undefined\<close> throws.\<close>

definition selectWinner :: "string \<Rightarrow> string \<Rightarrow> string \<Rightarrow> world \<Rightarrow> error + (world \<times> emit list)" where
  "selectWinner sid c winningPlayerId w =
     (case getLobby w c of
        None \<Rightarrow> Inl TypeError
      | Some l \<Rightarrow>
          (case getLobbyPlayer l sid of
             None \<Rightarrow> Inr (w, [])
           | Some czar \<Rightarrow>
               if gameState l \<noteq> judging \<or> Some (pid czar) \<noteq> czarId l then Inr (w, [])
               else
                 (case find (\<lambda>sub. playerId sub = winningPlayerId) (roundSubmissions l) of
                    None \<Rightarrow> Inr (w, [])
                  | Some winningSubmission \<Rightarrow>
                      (case getLobbyPlayer l winningPlayerId of
                         None \<Rightarrow> Inl TypeError
                       | Some winner0 \<Rightarrow>
                           (let winner = winner0\<lparr>score := score winner0 + 1\<rparr>;
                                l1 = l\<lparr>players :=
                                        updateFirst (\<lambda>p. pid p = winningPlayerId)
                                          (\<lambda>p. p\<lparr>score := score p + 1\<rparr>) (players l)\<rparr>
                            in (case currentBlackCard l1 of
                                  None \<Rightarrow> Inl TypeError
                                | Some b \<Rightarrow>
                                    (let l2 = l1\<lparr>roundWinnerInfo :=
                                                 Some \<lparr>winnerName = name winner,
                                                       winningCardsText = map wtext (cards winningSubmission),
                                                       blackCardText = btext b\<rparr>,
                                               whiteDiscard := whiteDiscard l1 @
                                                 concat (map cards (roundSubmissions l1))\<rparr>
                                     in if score winner \<ge> scoreToWin (settings l2) then
                                          (let l3 = l2\<lparr>gameState := gameOver\<rparr>
                                           in Inr (putLobby c l3 w,
                                                   [ToRoom c (GameOverWinner (name winner)),
                                                    ToRoom c (LobbyUpdate l3)]))
                                        else
                                          (let l3 = l2\<lparr>gameState := roundOver\<rparr>
                                           in Inr ((putLobby c l3 w)\<lparr>timers := timers w @ [c]\<rparr>,
                                                   [ToRoom c (LobbyUpdate l3)])))))))))"

text \<open>The callback that \<^verbatim>\<open>selectWinner\<close> hands to \<^verbatim>\<open>setTimeout\<close>.\<close>

definition autoAdvance :: "string \<Rightarrow> world \<Rightarrow> error + (world \<times> emit list)" where
  "autoAdvance c w =
     (case getLobby w c of
        None \<Rightarrow> Inr (w, [])
      | Some l \<Rightarrow>
          if gameState l = roundOver \<and> gameState l \<noteq> gameOver then startNextRound c w
          else Inr (w, []))"

definition requestNextRound :: "string \<Rightarrow> string \<Rightarrow> world \<Rightarrow> error + (world \<times> emit list)" where
  "requestNextRound sid c w =
     (case getLobby w c of
        None \<Rightarrow> Inr (w, [])
      | Some l \<Rightarrow>
          if (hostId l = sid \<or> gameState l = roundOver) \<and> gameState l \<noteq> gameOver
          then startNextRound c w
          else Inr (w, []))"

text \<open>The \<^verbatim>\<open>else\<close> block of \<^verbatim>\<open>disconnect\<close>, run when members remain: the lobby \<open>l\<close>
  is the one the member was removed from, with the host already reassigned. If the game is
  running and the member was the czar a new round starts; otherwise fewer than three
  members end the game. The lobby is broadcast in every case.\<close>

definition recoverRound :: "string \<Rightarrow> string \<Rightarrow> string \<Rightarrow> lobby \<Rightarrow> world \<Rightarrow> error + (world \<times> emit list)" where
  "recoverRound sid c disconnectedPlayerName l w =
     (let w2 = putLobby c l w
      in if gameState l \<noteq> waiting \<and> gameState l \<noteq> gameOver then
           (if czarId l = Some sid then
              (case startNextRound c w2 of
                 Inl e \<Rightarrow> Inl e
               | Inr (w3, out) \<Rightarrow>
                   Inr (w3, ToRoom c (GameMessage (disconnectedPlayerName @
                              '' (Czar) disconnected. Starting new round.''))
                            # out @ broadcastLobbyState c w3))
            else if length (players l) < 3 \<and> gameState l \<noteq> waiting then
              (let w3 = putLobby c (l\<lparr>gameState := gameOver\<rparr>) w2
               in Inr (w3, ToRoom c GameOverNotEnoughPlayers # broadcastLobbyState c w3))
            else Inr (w2, broadcastLobbyState c w2))
         else Inr (w2, broadcastLobbyState c w2))"

text \<open>The body of the loop of \<^verbatim>\<open>disconnect\<close> for the lobby that holds the socket: the
  member is spliced out of the roster; an empty lobby is deleted, otherwise a host that
  left is replaced by the first member and the round is recovered.\<close>

definition removeMember :: "string \<Rightarrow> string \<Rightarrow> lobby \<Rightarrow> world \<Rightarrow> error + (world \<times> emit list)" where
  "removeMember sid c l w =
     (let playerIndex = nat (findIndex (\<lambda>p. pid p = sid) (players l));
          disconnectedPlayerName = name (players l ! playerIndex);
          l1 = l\<lparr>players := take playerIndex (players l) @ drop (Suc playerIndex) (players l)\<rparr>
      in if length (players l1) = 0 then Inr (deleteLobby c w, [])
         else recoverRound sid c disconnectedPlayerName
                (if hostId l1 = sid then l1\<lparr>hostId := pid (players l1 ! 0)\<rparr> else l1) w)"

text \<open>\<^verbatim>\<open>disconnect\<close>: the loop walks the codes of the registry, and the first lobby
  that holds the socket is the one that is handled. (JavaScript enumerates a code made of
  digits only before the others; the order matters only for a socket that sits in more
  than one lobby.)\<close>

definition disconnect :: "string \<Rightarrow> world \<Rightarrow> error + (world \<times> emit list)" where
  "disconnect sid w =
     (case find (\<lambda>c. case getLobby w c of
                        None \<Rightarrow> False
                      | Some l \<Rightarrow> findIndex (\<lambda>p. pid p = sid) (players l) \<noteq> - 1)
                (map fst (lobbies w)) of
        None \<Rightarrow> Inr (w, [])
      | Some c \<Rightarrow>
          (case getLobby w c of
             None \<Rightarrow> Inr (w, [])
           | Some l \<Rightarrow> removeMember sid c l w))"

section \<open>Events\<close>

text \<open>One inbound action of a connection, or the firing of the oldest pending timer.
  \<^verbatim>\<open>getPackList\<close> and \<^verbatim>\<open>getPublicLobbies\<close> only read the state and are left out.\<close>

datatype event =
    CreateLobby string string "settings_in option"
  | JoinLobby string string string
  | UpdateSettings string string "settings_in option"
  | StartGame string string
  | SubmitCards string string "string list option"
  | SelectWinner string string string
  | RequestNextRound string string
  | Disconnect string
  | Timeout

fun handle :: "event \<Rightarrow> world \<Rightarrow> error + (world \<times> emit list)" where
  "handle (CreateLobby sid nm st) w = createLobby sid nm st w"
| "handle (JoinLobby sid c nm) w = joinLobby sid c nm w"
| "handle (UpdateSettings sid c st) w = updateSettings sid c st w"
| "handle (StartGame sid c) w = startGame sid c w"
| "handle (SubmitCards sid c cardIds) w = submitCards sid c cardIds w"
| "handle (SelectWinner sid c winningPlayerId) w = selectWinner sid c winningPlayerId w"
| "handle (RequestNextRound sid c) w = requestNextRound sid c w"
| "handle (Disconnect sid) w = disconnect sid w"
| "handle Timeout w =
     (case timers w of [] \<Rightarrow> Inr (w, []) | c # cs \<Rightarrow> autoAdvance c (w\<lparr>timers := cs\<rparr>))"

text \<open>A sequence of events; a throw ends the run.\<close>

fun run :: "event list \<Rightarrow> world \<Rightarrow> error + world" where
  "run [] w = Inr w"
| "run (e # es) w = (case handle e w of Inl x \<Rightarrow> Inl x | Inr (w', out) \<Rightarrow> run es w')"

section \<open>The older copy of the server\<close>

text \<open>The second source file of the repository is an earlier copy of \<^verbatim>\<open>server.js\<close>. Its
  handlers for starting, submitting, judging, forcing a round and disconnecting are the
  same statements. It has no configuration: its \<^verbatim>\<open>createLobby\<close> stores no
  \<^verbatim>\<open>isPrivate\<close> and its \<^verbatim>\<open>joinLobby\<close> accepts a name that is taken, which makes no
  difference to a run in which all names differ. Its \<^verbatim>\<open>setTimeout\<close> callback tests only
  that the lobby exists and is not in \<^verbatim>\<open>gameOver\<close>.\<close>

definition autoAdvance_part_000 :: "string \<Rightarrow> world \<Rightarrow> error + (world \<times> emit list)" where
  "autoAdvance_part_000 c w =
     (case getLobby w c of
        None \<Rightarrow> Inr (w, [])
      | Some l \<Rightarrow> if gameState l \<noteq> gameOver then startNextRound c w else Inr (w, []))"

definition fireTimer_part_000 :: "world \<Rightarrow> error + (world \<times> emit list)" where
  "fireTimer_part_000 w =
     (case timers w of [] \<Rightarrow> Inr (w, []) | c # cs \<Rightarrow> autoAdvance_part_000 c (w\<lparr>timers := cs\<rparr>))"

section \<open>Observations\<close>

text \<open>Every white card a lobby holds: draw pile, discard pile, hands and the submissions
  of the round.\<close>

definition whiteCards :: "lobby \<Rightarrow> wcard list" where
  "whiteCards l =
     whiteDeck l @ whiteDiscard l @ concat (map hand (players l))
       @ concat (map cards (roundSubmissions l))"

text \<open>The members that are not the czar, as \<^verbatim>\<open>submitCards\<close> counts them.\<close>

definition nonCzars :: "lobby \<Rightarrow> player list" where
  "nonCzars l = filter (\<lambda>p. Some (pid p) \<noteq> czarId l) (players l)"

text \<open>The black cards of a lobby that are in a pile, and the prompt.\<close>

definition prompt :: "lobby \<Rightarrow> bcard list" where
  "prompt l = (case currentBlackCard l of None \<Rightarrow> [] | Some b \<Rightarrow> [b])"

text \<open>The changes of the game state that one event can make: the state machine the
  handlers implement.\<close>

fun mayFollow :: "game_state \<Rightarrow> game_state \<Rightarrow> bool" where
  "mayFollow waiting s = (s = waiting \<or> s = playing \<or> s = gameOver)"
| "mayFollow playing s = (s = playing \<or> s = judging \<or> s = gameOver)"
| "mayFollow judging s = (s = judging \<or> s = roundOver \<or> s = gameOver \<or> s = playing)"
| "mayFollow roundOver s = (s = roundOver \<or> s = playing \<or> s = gameOver)"
| "mayFollow gameOver s = (s = gameOver)"

text \<open>A session that is not waiting and not over has a prompt on the table.\<close>

definition promptPresent :: "lobby \<Rightarrow> bool" where
  "promptPresent l \<longleftrightarrow>
     gameState l = waiting \<or> gameState l = gameOver \<or> currentBlackCard l \<noteq> None"

text \<open>The states of the server: it starts with an empty registry, and every event that
  does not throw leads to the next state.\<close>

inductive reachable :: "world \<Rightarrow> bool" where
  fresh: "lobbies w = [] \<Longrightarrow> reachable w"
| step: "reachable w \<Longrightarrow> handle e w = Inr (w', out) \<Longrightarrow> reachable w'"

section \<open>A small server to run the handlers on\<close>

text \<open>One pack of 32 white cards and two prompts, a fresh server whose random source
  always returns its lowest value, and the events that bring three or four players into a
  started game. The lobby gets the code \<^verbatim>\<open>ABCDE\<close>.\<close>

definition demoPack :: pack where
  "demoPack = \<lparr>pname = ''Base'', pwhite = map showNat [0..<32],
               pblack = [(''Q1'', Some 1), (''Q2'', None)]\<rparr>"

definition boot :: world where
  "boot = \<lparr>lobbies = [], allowSameNames = False, roomsFunctionality = True, deck = [demoPack],
           timers = [], rnd = (\<lambda>_. 0), codeOf = (\<lambda>_. ''ABCDE''), calls = 0\<rparr>"

definition threeStarted :: "event list" where
  "threeStarted =
     [CreateLobby ''s1'' ''Ann'' None, JoinLobby ''s2'' ''ABCDE'' ''Bob'',
      JoinLobby ''s3'' ''ABCDE'' ''Cid'', StartGame ''s1'' ''ABCDE'']"

definition fourStarted :: "event list" where
  "fourStarted =
     [CreateLobby ''s1'' ''Ann'' None, JoinLobby ''s2'' ''ABCDE'' ''Bob'',
      JoinLobby ''s3'' ''ABCDE'' ''Cid'', JoinLobby ''s4'' ''ABCDE'' ''Dan'',
      StartGame ''s1'' ''ABCDE'']"

text \<open>What is looked at after a run: the lobby \<^verbatim>\<open>ABCDE\<close>, if the run did not throw and
  the lobby is still there.\<close>

definition lobbyAfter :: "event list \<Rightarrow> lobby option" where
  "lobbyAfter es = (case run es boot of Inl e \<Rightarrow> None | Inr w \<Rightarrow> getLobby w ''ABCDE'')"

definition view :: "lobby \<Rightarrow> game_state \<times> string list \<times> string option \<times> nat" where
  "view l = (gameState l, map pid (players l), czarId l, length (roundSubmissions l))"

text \<open>What a run threw, if it threw.\<close>

definition thrown :: "error + 'a \<Rightarrow> error option" where
  "thrown x = (case x of Inl e \<Rightarrow> Some e | Inr y \<Rightarrow> None)"

definition worldAfter :: "event list \<Rightarrow> world option" where
  "worldAfter es = (case run es boot of Inl e \<Rightarrow> None | Inr w \<Rightarrow> Some w)"

text \<open>Whether the white card with the given identifier is anywhere in the lobby.\<close>

definition holdsCard :: "lobby \<Rightarrow> string \<Rightarrow> bool" where
  "holdsCard l i = List.member (map wid (whiteCards l)) i"

text \<open>Four players, czar \<^verbatim>\<open>s2\<close>, and every other member has submitted one card.\<close>

definition allSubmitted :: "event list" where
  "allSubmitted = fourStarted @
     [SubmitCards ''s1'' ''ABCDE'' (Some [''w_0'']),
      SubmitCards ''s3'' ''ABCDE'' (Some [''w_12'']),
      SubmitCards ''s4'' ''ABCDE'' (Some [''w_2''])]"

text \<open>Three players, a full round, and the czar \<^verbatim>\<open>s2\<close> has picked \<^verbatim>\<open>s3\<close>.\<close>

definition roundWon :: "event list" where
  "roundWon = threeStarted @
     [SubmitCards ''s1'' ''ABCDE'' (Some [''w_0'']),
      SubmitCards ''s3'' ''ABCDE'' (Some [''w_12'']),
      SelectWinner ''s2'' ''ABCDE'' ''s3'']"


text \<open>A lobby in the middle of a round, written out: three members, czar \<^verbatim>\<open>s2\<close>, a
  prompt that asks for one card.\<close>

definition tableLobby :: lobby where
  "tableLobby =
     \<lparr>code = ''ABCDE'',
      players =
        [\<lparr>pid = ''s1'', name = ''Ann'', score = 0,
          hand = [\<lparr>wid = ''w_0'', wtext = ''a''\<rparr>, \<lparr>wid = ''w_1'', wtext = ''b''\<rparr>],
          submittedCards = None\<rparr>,
         \<lparr>pid = ''s2'', name = ''Bob'', score = 0,
          hand = [\<lparr>wid = ''w_2'', wtext = ''c''\<rparr>], submittedCards = None\<rparr>,
         \<lparr>pid = ''s3'', name = ''Cid'', score = 0,
          hand = [\<lparr>wid = ''w_3'', wtext = ''d''\<rparr>], submittedCards = None\<rparr>],
      hostId = ''s1'', gameState = playing,
      settings = \<lparr>scoreToWin = 7, maxPlayers = 10, selectedPackIndexes = [0], isPrivate = False\<rparr>,
      whiteDeck = [\<lparr>wid = ''w_4'', wtext = ''e''\<rparr>, \<lparr>wid = ''w_5'', wtext = ''f''\<rparr>],
      blackDeck = [\<lparr>bid = ''b_7'', btext = ''Q1'', pick = Some 1\<rparr>],
      whiteDiscard = [\<lparr>wid = ''w_6'', wtext = ''g''\<rparr>],
      blackDiscard = [],
      currentBlackCard = Some \<lparr>bid = ''b_8'', btext = ''Q2'', pick = Some 1\<rparr>,
      czarId = Some ''s2'', roundSubmissions = [], roundWinnerInfo = None\<rparr>"

definition tableWorld :: world where
  "tableWorld = boot\<lparr>lobbies := [(''ABCDE'', tableLobby)]\<rparr>"

text \<open>The same lobby with a white draw pile of one card and an empty black draw pile, and
  three cards in each discard pile: dealing or starting a round reshuffles.\<close>

definition tableSpent :: lobby where
  "tableSpent =
     tableLobby\<lparr>whiteDeck := [\<lparr>wid = ''w_4'', wtext = ''e''\<rparr>],
                whiteDiscard := [\<lparr>wid = ''w_6'', wtext = ''g''\<rparr>, \<lparr>wid = ''w_9'', wtext = ''h''\<rparr>,
                                 \<lparr>wid = ''w_10'', wtext = ''i''\<rparr>],
                blackDeck := [],
                blackDiscard := [\<lparr>bid = ''b_7'', btext = ''Q1'', pick = Some 1\<rparr>,
                                 \<lparr>bid = ''b_11'', btext = ''Q3'', pick = Some 1\<rparr>,
                                 \<lparr>bid = ''b_12'', btext = ''Q4'', pick = None\<rparr>]\<rparr>"

text \<open>A lobby of three members that selects a pack the catalogue does not have, so that
  the game starts with no card at all.\<close>

definition emptyPackLobby :: "event list" where
  "emptyPackLobby =
     [CreateLobby ''s1'' ''Ann'' (Some \<lparr>scoreToWin_in = None, maxPlayers_in = None,
                                        selectedPackIndexes_in = Some [1], isPrivate_in = None\<rparr>),
      JoinLobby ''s2'' ''ABCDE'' ''Bob'', JoinLobby ''s3'' ''ABCDE'' ''Cid'']"

text \<open>The same server with a catalogue of one prompt only.\<close>

definition soloPromptBoot :: world where
  "soloPromptBoot = boot\<lparr>deck := [demoPack\<lparr>pblack := [(''Q1'', Some 1)]\<rparr>]\<rparr>"

text \<open>The server once three players have started a game and \<^verbatim>\<open>s1\<close> has submitted.\<close>

definition firstSubmitted :: world where
  "firstSubmitted = projr (run (threeStarted @ [SubmitCards ''s1'' ''ABCDE'' (Some [''w_0''])]) boot)"

text \<open>A session that is still waiting has no black card in its piles: they are filled by
  \<^verbatim>\<open>startGame\<close>.\<close>

definition blackUnset :: "lobby \<Rightarrow> bool" where
  "blackUnset l \<longleftrightarrow> gameState l \<noteq> waiting \<or> (blackDeck l = [] \<and> blackDiscard l = [])"

text \<open>The fields of a lobby that dealing white cards leaves alone.\<close>

definition sameBlack :: "lobby \<Rightarrow> lobby \<Rightarrow> bool" where
  "sameBlack l l' \<longleftrightarrow> blackDeck l' = blackDeck l \<and> blackDiscard l' = blackDiscard l
      \<and> currentBlackCard l' = currentBlackCard l \<and> gameState l' = gameState l
      \<and> czarId l' = czarId l \<and> length (players l') = length (players l)"

section \<open>Shuffling\<close>

text \<open>A shuffle only swaps elements: the array keeps its length and its elements.\<close>

lemma shuffleLoop_props:
  "i < length a \<or> i = 0 \<Longrightarrow>
     mset (fst (shuffleLoop r i a k)) = mset a \<and> length (fst (shuffleLoop r i a k)) = length a"
proof (induction i arbitrary: a k)
  case 0
  then show ?case by simp
next
  case (Suc i)
  let ?j = "r k mod (Suc i + 1)"
  let ?a = "a[Suc i := a ! ?j, ?j := a ! Suc i]"
  from Suc.prems have lt: "Suc i < length a" by simp
  have "?j < Suc (Suc i)" by simp
  with lt have j: "?j < length a" by linarith
  have m: "mset ?a = mset a" using lt j by (simp add: mset_swap)
  have "i < length ?a" using lt by simp
  with Suc.IH[of ?a "Suc k"]
  have "mset (fst (shuffleLoop r i ?a (Suc k))) = mset ?a
      \<and> length (fst (shuffleLoop r i ?a (Suc k))) = length ?a" by blast
  moreover have "shuffleLoop r (Suc i) a k = shuffleLoop r i ?a (Suc k)" by (simp add: Let_def)
  moreover have "length ?a = length a" by simp
  ultimately show ?case using m by presburger
qed

lemma mset_shuffleArray: "mset (fst (shuffleArray r a k)) = mset a"
  unfolding shuffleArray_def using shuffleLoop_props[of "length a - 1" a r k]
  by (cases a) auto

lemma length_shuffleArray: "length (fst (shuffleArray r a k)) = length a"
  unfolding shuffleArray_def using shuffleLoop_props[of "length a - 1" a r k]
  by (cases a) auto

lemma shuffleArray_length_pair: "shuffleArray r a k = (x, k') \<Longrightarrow> length x = length a"
  by (metis fst_conv length_shuffleArray)

section \<open>The card supply\<close>

lemma reshuffleWhite_piles:
  "whiteDiscard (fst (reshuffleWhite r l k)) = []"
  "mset (whiteDeck (fst (reshuffleWhite r l k))) = mset (whiteDiscard l)"
  by (simp_all add: reshuffleWhite_def mset_shuffleArray split: prod.splits)
   (metis fst_conv mset_shuffleArray)

lemma reshuffleBlack_piles:
  "blackDiscard (fst (reshuffleBlack r l k)) = []"
  "mset (blackDeck (fst (reshuffleBlack r l k))) = mset (blackDiscard l)"
  by (simp_all add: reshuffleBlack_def split: prod.splits)
   (metis fst_conv mset_shuffleArray)

lemma dealOne_frame:
  "whiteDiscard (dealOne l i) = whiteDiscard l"
  "whiteDeck (dealOne l i) = butlast (whiteDeck l)"
  "blackDeck (dealOne l i) = blackDeck l"
  "blackDiscard (dealOne l i) = blackDiscard l"
  "currentBlackCard (dealOne l i) = currentBlackCard l"
  "gameState (dealOne l i) = gameState l"
  "czarId (dealOne l i) = czarId l"
  "length (players (dealOne l i)) = length (players l)"
  by (simp_all add: dealOne_def pop_def)

lemma reshuffleWhite_frame:
  "blackDeck (fst (reshuffleWhite r l k)) = blackDeck l"
  "blackDiscard (fst (reshuffleWhite r l k)) = blackDiscard l"
  "currentBlackCard (fst (reshuffleWhite r l k)) = currentBlackCard l"
  "gameState (fst (reshuffleWhite r l k)) = gameState l"
  "czarId (fst (reshuffleWhite r l k)) = czarId l"
  "players (fst (reshuffleWhite r l k)) = players l"
  by (simp_all add: reshuffleWhite_def split: prod.splits)

lemma dealWhiteCards_frame:
  "blackDeck (fst (dealWhiteCards r l i n k)) = blackDeck l
   \<and> blackDiscard (fst (dealWhiteCards r l i n k)) = blackDiscard l
   \<and> currentBlackCard (fst (dealWhiteCards r l i n k)) = currentBlackCard l
   \<and> gameState (fst (dealWhiteCards r l i n k)) = gameState l
   \<and> czarId (fst (dealWhiteCards r l i n k)) = czarId l
   \<and> length (players (fst (dealWhiteCards r l i n k))) = length (players l)"
proof (induction n arbitrary: l k)
  case 0
  show ?case by simp
next
  case (Suc n)
  show ?case
  proof (cases "length (whiteDeck l) = 0")
    case False
    then have "dealWhiteCards r l i (Suc n) k = dealWhiteCards r (dealOne l i) i n k" by simp
    with Suc.IH[of "dealOne l i" k] show ?thesis by (simp add: dealOne_frame)
  next
    case True
    show ?thesis
    proof (cases "length (whiteDiscard l) = 0")
      case True
      with \<open>length (whiteDeck l) = 0\<close> show ?thesis by simp
    next
      case False
      obtain l' k' where rs: "reshuffleWhite r l k = (l', k')" by (cases "reshuffleWhite r l k")
      with True False have
        "dealWhiteCards r l i (Suc n) k = dealWhiteCards r (dealOne l' i) i n k'" by simp
      moreover from rs have "l' = fst (reshuffleWhite r l k)" by simp
      ultimately show ?thesis
        using Suc.IH[of "dealOne l' i" k'] by (simp add: dealOne_frame reshuffleWhite_frame)
    qed
  qed
qed

lemma dealWhiteCards_no_reshuffle:
  "n \<le> length (whiteDeck l) \<or> whiteDiscard l = [] \<Longrightarrow>
     whiteDiscard (fst (dealWhiteCards r l i n k)) = whiteDiscard l
     \<and> whiteDeck (fst (dealWhiteCards r l i n k))
         = take (length (whiteDeck l) - n) (whiteDeck l)
     \<and> snd (dealWhiteCards r l i n k) = k"
proof (induction n arbitrary: l)
  case 0
  show ?case by simp
next
  case (Suc n)
  show ?case
  proof (cases "whiteDeck l = []")
    case True
    with Suc.prems have "whiteDiscard l = []" by auto
    with True show ?thesis by simp
  next
    case False
    then have eq: "dealWhiteCards r l i (Suc n) k = dealWhiteCards r (dealOne l i) i n k" by simp
    from Suc.prems have "n \<le> length (whiteDeck (dealOne l i)) \<or> whiteDiscard (dealOne l i) = []"
      by (auto simp add: dealOne_frame)
    from Suc.IH[OF this] eq show ?thesis
      by (simp add: dealOne_frame butlast_conv_take)
  qed
qed

lemma mset_hands_push:
  "i < length ps \<Longrightarrow>
     mset (concat (map hand (ps[i := (ps ! i)\<lparr>hand := hand (ps ! i) @ [c]\<rparr>])))
       = add_mset c (mset (concat (map hand ps)))"
proof (induction ps arbitrary: i)
  case Nil
  then show ?case by simp
next
  case (Cons p ps)
  then show ?case by (cases i) simp_all
qed

lemma dealOne_conserves:
  assumes "i < length (players l)"
  shows "mset (whiteDeck (dealOne l i)) + mset (concat (map hand (players (dealOne l i))))
       = mset (whiteDeck l) + mset (concat (map hand (players l)))"
proof (cases "whiteDeck l = []")
  case True
  then show ?thesis by (simp add: dealOne_def)
next
  case False
  then have "mset (whiteDeck l) = add_mset (last (whiteDeck l)) (mset (butlast (whiteDeck l)))"
    by (metis append_butlast_last_id mset.simps(2) mset_append union_mset_add_mset_right
          add.right_neutral mset.simps(1))
  with False assms show ?thesis by (simp add: dealOne_def pop_def mset_hands_push)
qed

text \<open>Dealing moves cards from the two piles to the hands and neither makes nor loses
  one, reshuffles included.\<close>

lemma dealWhiteCards_conserves:
  assumes "i < length (players l)"
  shows "mset (whiteDeck (fst (dealWhiteCards r l i n k)))
       + mset (whiteDiscard (fst (dealWhiteCards r l i n k)))
       + mset (concat (map hand (players (fst (dealWhiteCards r l i n k)))))
       = mset (whiteDeck l) + mset (whiteDiscard l) + mset (concat (map hand (players l)))"
  using assms
proof (induction n arbitrary: l k)
  case 0
  show ?case by simp
next
  case (Suc n)
  show ?case
  proof (cases "length (whiteDeck l) = 0")
    case False
    then have eq: "dealWhiteCards r l i (Suc n) k = dealWhiteCards r (dealOne l i) i n k" by simp
    have "i < length (players (dealOne l i))" using Suc.prems by (simp add: dealOne_frame)
    from Suc.IH[OF this, of k] eq dealOne_conserves[OF Suc.prems] show ?thesis
      by (simp add: dealOne_frame add.commute add.left_commute)
  next
    case True
    show ?thesis
    proof (cases "length (whiteDiscard l) = 0")
      case True
      with \<open>length (whiteDeck l) = 0\<close> show ?thesis by simp
    next
      case False
      obtain l' k' where rs: "reshuffleWhite r l k = (l', k')" by (cases "reshuffleWhite r l k")
      then have l': "l' = fst (reshuffleWhite r l k)" by simp
      from rs True False have eq:
        "dealWhiteCards r l i (Suc n) k = dealWhiteCards r (dealOne l' i) i n k'" by simp
      have pl: "players l' = players l" by (simp add: l' reshuffleWhite_frame)
      have piles: "whiteDiscard l' = []" "mset (whiteDeck l') = mset (whiteDiscard l)"
        by (simp_all add: l' reshuffleWhite_piles)
      have i': "i < length (players l')" using Suc.prems pl by simp
      then have "i < length (players (dealOne l' i))" by (simp add: dealOne_frame)
      from Suc.IH[OF this, of k'] eq dealOne_conserves[OF i'] piles pl True show ?thesis
        by (simp add: dealOne_frame add.commute add.left_commute)
    qed
  qed
qed

lemma fold_preserves:
  assumes "\<And>x s. Q s \<Longrightarrow> Q (f x s)" and "Q s"
  shows "Q (fold f xs s)"
  using assms(2) by (induction xs arbitrary: s) (simp_all add: assms(1))

lemma replenishStep_frame:
  "sameBlack l0 (fst s) \<Longrightarrow> sameBlack l0 (fst (replenishStep r i s))"
proof -
  assume a: "sameBlack l0 (fst s)"
  obtain l k out where s: "s = (l, k, out)" by (cases s)
  let ?n = "MAX_HAND_SIZE - int (length (hand (players l ! i)))"
  show ?thesis
  proof (cases "?n > 0")
    case True
    then have "fst (replenishStep r i s) = fst (dealWhiteCards r l i (nat ?n) k)"
      by (simp add: s replenishStep_def Let_def split: prod.splits)
    with a s dealWhiteCards_frame[of r l i "nat ?n" k] show ?thesis
      by (simp add: sameBlack_def)
  next
    case False
    then have "fst (replenishStep r i s) = l"
      by (simp add: s replenishStep_def Let_def)
    with a s show ?thesis by simp
  qed
qed

lemma replenishHands_frame: "sameBlack l (fst (replenishHands r l k))"
  unfolding replenishHands_def
proof (rule fold_preserves[where Q = "\<lambda>s. sameBlack l (fst s)"])
  fix x and s :: "lobby \<times> nat \<times> emit list"
  assume "sameBlack l (fst s)"
  then show "sameBlack l (fst (replenishStep r x s))" by (rule replenishStep_frame)
next
  show "sameBlack l (fst (l, k, []))" by (simp add: sameBlack_def)
qed

lemma drawPrompt_black:
  "blackDeck l \<noteq> [] \<Longrightarrow>
     blackDeck (fst (drawPrompt r c l k)) = butlast (blackDeck l)
     \<and> blackDiscard (fst (drawPrompt r c l k)) = blackDiscard l @ prompt l
     \<and> currentBlackCard (fst (drawPrompt r c l k)) = Some (last (blackDeck l))
     \<and> gameState (fst (drawPrompt r c l k)) = gameState l"
proof -
  assume ne: "blackDeck l \<noteq> []"
  let ?l4 = "(case currentBlackCard l of
                  Some b \<Rightarrow> l\<lparr>blackDiscard := blackDiscard l @ [b]\<rparr>
                | None \<Rightarrow> l)"
  let ?l5 = "(case pop (blackDeck ?l4) of
                  (b, rest) \<Rightarrow> ?l4\<lparr>currentBlackCard := b, blackDeck := rest\<rparr>)"
  have "fst (drawPrompt r c l k) = fst (replenishHands r ?l5 k)"
    by (simp add: drawPrompt_def Let_def split: prod.splits)
  moreover have "sameBlack ?l5 (fst (replenishHands r ?l5 k))" by (rule replenishHands_frame)
  moreover have "blackDeck ?l5 = butlast (blackDeck l) \<and> blackDiscard ?l5 = blackDiscard l @ prompt l
      \<and> currentBlackCard ?l5 = Some (last (blackDeck l)) \<and> gameState ?l5 = gameState l"
    using ne by (simp add: pop_def prompt_def split: option.splits)
  ultimately show ?thesis by (simp add: sameBlack_def)
qed

lemma nextRound_black_no_reshuffle:
  assumes "nextRound r c l k = Inr (l', k', out)" and "blackDeck l \<noteq> []"
  shows "blackDeck l' = butlast (blackDeck l) \<and> blackDiscard l' = blackDiscard l @ prompt l"
proof -
  let ?l1 = "l\<lparr>gameState := playing, roundSubmissions := [], roundWinnerInfo := None,
                  players := map (\<lambda>p. p\<lparr>submittedCards := None\<rparr>) (players l)\<rparr>"
  let ?l2 = "?l1\<lparr>czarId := Some (pid (players ?l1 ! nat ((findIndex (\<lambda>p. Some (pid p) = czarId ?l1) (players ?l1) + 1) mod int (length (players ?l1)))))\<rparr>"
  from assms have "Inr (l', k', out) = (Inr (drawPrompt r c ?l2 k) :: error + (lobby \<times> nat \<times> emit list))"
    by (simp add: nextRound_def Let_def split: if_splits)
  then have "l' = fst (drawPrompt r c ?l2 k)" by (metis fst_conv sum.inject(2))
  moreover have "blackDeck ?l2 \<noteq> []" using assms(2) by simp
  ultimately show ?thesis using drawPrompt_black[of ?l2 r c k] by (simp add: prompt_def)
qed

lemma dealWhiteCards_stuck:
  "whiteDeck l = [] \<Longrightarrow> whiteDiscard l = [] \<Longrightarrow> dealWhiteCards r l i n k = (l, k)"
  by (cases n) simp_all

lemma dealWhiteCards_append:
  "dealWhiteCards r l i (m + n) k =
     (case dealWhiteCards r l i m k of (l1, k1) \<Rightarrow> dealWhiteCards r l1 i n k1)"
proof (induction m arbitrary: l k)
  case 0
  show ?case by simp
next
  case (Suc m)
  show ?case
  proof (cases "whiteDeck l = []")
    case False
    with Suc.IH[of "dealOne l i" k] show ?thesis by simp
  next
    case True
    show ?thesis
    proof (cases "whiteDiscard l = []")
      case True
      with \<open>whiteDeck l = []\<close> show ?thesis by (simp add: dealWhiteCards_stuck)
    next
      case False
      obtain l' k' where rs: "reshuffleWhite r l k = (l', k')" by (cases "reshuffleWhite r l k")
      with True False Suc.IH[of "dealOne l' i" k'] show ?thesis by simp
    qed
  qed
qed

lemma dealWhiteCards_first_reshuffle:
  assumes "length (whiteDeck l) < n" and "whiteDiscard l \<noteq> []"
  shows "whiteDeck (fst (dealWhiteCards r l i (length (whiteDeck l)) k)) = []
     \<and> whiteDiscard (fst (dealWhiteCards r l i (length (whiteDeck l)) k)) = whiteDiscard l
     \<and> dealWhiteCards r l i n k =
         (case reshuffleWhite r (fst (dealWhiteCards r l i (length (whiteDeck l)) k)) k of
            (l1, k1) \<Rightarrow> dealWhiteCards r (dealOne l1 i) i (n - Suc (length (whiteDeck l))) k1)"
proof -
  let ?m = "length (whiteDeck l)"
  obtain lm km where m: "dealWhiteCards r l i ?m k = (lm, km)"
    by (cases "dealWhiteCards r l i ?m k")
  from dealWhiteCards_no_reshuffle[of ?m l r i k] m
  have piles: "whiteDiscard lm = whiteDiscard l" "whiteDeck lm = []" and km: "km = k"
    by simp_all
  from assms(1) have n: "n = ?m + Suc (n - Suc ?m)" by simp
  have "dealWhiteCards r l i (?m + Suc (n - Suc ?m)) k = dealWhiteCards r lm i (Suc (n - Suc ?m)) k"
    by (simp only: dealWhiteCards_append m km split: prod.splits) simp
  with n have "dealWhiteCards r l i n k = dealWhiteCards r lm i (Suc (n - Suc ?m)) k" by simp
  also have "\<dots> = (case reshuffleWhite r lm k of
            (l1, k1) \<Rightarrow> dealWhiteCards r (dealOne l1 i) i (n - Suc ?m) k1)"
    using piles assms(2) by simp
  finally show ?thesis using piles m by simp
qed

lemma nextRound_black_reshuffle:
  assumes "nextRound r c l k = Inr (l', k', out)" and "blackDeck l = []" and "blackDiscard l \<noteq> []"
  shows "gameState l' = playing \<and> blackDiscard l' = prompt l
     \<and> mset (blackDeck l') + mset (prompt l') = mset (blackDiscard l)"
proof -
  let ?l1 = "l\<lparr>gameState := playing, roundSubmissions := [], roundWinnerInfo := None,
                  players := map (\<lambda>p. p\<lparr>submittedCards := None\<rparr>) (players l)\<rparr>"
  let ?l2 = "?l1\<lparr>czarId := Some (pid (players ?l1 ! nat ((findIndex (\<lambda>p. Some (pid p) = czarId ?l1) (players ?l1) + 1) mod int (length (players ?l1)))))\<rparr>"
  obtain l3 k3 where rs: "reshuffleBlack r ?l2 k = (l3, k3)" by (cases "reshuffleBlack r ?l2 k")
  then have l3: "l3 = fst (reshuffleBlack r ?l2 k)" by simp
  have piles: "blackDiscard l3 = []" "mset (blackDeck l3) = mset (blackDiscard l)"
    using reshuffleBlack_piles[of r ?l2 k] by (simp_all add: l3)
  have cur: "currentBlackCard l3 = currentBlackCard l" "gameState l3 = playing"
    by (simp_all add: l3 reshuffleBlack_def split: prod.splits)
  from piles(2) assms(3) have ne: "blackDeck l3 \<noteq> []" by (metis mset_zero_iff)
  from assms rs have "Inr (l', k', out) = (Inr (drawPrompt r c l3 k3) :: error + (lobby \<times> nat \<times> emit list))"
    by (simp add: nextRound_def Let_def split: if_splits)
  then have l': "l' = fst (drawPrompt r c l3 k3)" by (metis fst_conv sum.inject(2))
  from drawPrompt_black[OF ne, of r c k3] l'
  have "blackDeck l' = butlast (blackDeck l3)" "blackDiscard l' = blackDiscard l3 @ prompt l3"
    "currentBlackCard l' = Some (last (blackDeck l3))" "gameState l' = gameState l3" by simp_all
  moreover have "mset (butlast (blackDeck l3)) + {#last (blackDeck l3)#} = mset (blackDeck l3)"
    using ne by (metis append_butlast_last_id mset.simps(1) mset.simps(2) mset_append)
  ultimately show ?thesis using piles cur by (simp add: prompt_def)
qed

lemma nextRound_no_black:
  assumes "nextRound r c l k = Inr (l', k', out)" and "blackDeck l = []" and "blackDiscard l = []"
  shows "gameState l' = gameOver \<and> blackDeck l' = [] \<and> blackDiscard l' = []
     \<and> currentBlackCard l' = currentBlackCard l \<and> k' = k"
  using assms by (auto simp add: nextRound_def Let_def split: if_splits)

text \<open>
  Claim C6: a reshuffle, on the white or on the black supply, moves the whole discard pile
  into the draw pile and empties the discard pile, so the cards of the two piles together
  are the same before and after; and it happens only when the draw pile is empty and the
  discard pile is not.

  The first two parts are the reshuffle itself, at a lobby whose draw pile is empty, as it
  is where the code calls it. The next three are \<^verbatim>\<open>dealWhiteCards\<close>: dealing \<open>n\<close> cards from
  a draw pile that holds at least \<open>n\<close>, or with an empty discard pile, reshuffles nothing
  (the discard pile stays, the cards come off the end of the draw pile, no random number
  is drawn); dealing more cards than the draw pile holds, with a discard pile that is not
  empty, deals the draw pile down to nothing without a reshuffle, reshuffles at exactly
  that point, and goes on with the rest of the cards from the reshuffled lobby; and any
  deal, reshuffles included, leaves the cards of draw pile, discard pile and hands together
  as they were. The last three are \<^verbatim>\<open>startNextRound\<close>: with a black card in the draw
  pile nothing is reshuffled (the last card of the pile becomes the prompt and only the
  previous prompt joins the discard pile); with an empty draw pile and a discard pile that
  is not empty, the round is played with a prompt and a draw pile that together are the
  cards of the old discard pile, and the new discard pile holds the previous prompt only;
  with both piles empty nothing is reshuffled and the game is over.
\<close>

theorem reshuffle_keeps_cards:
  "(whiteDeck lw = [] \<longrightarrow>
      whiteDiscard (fst (reshuffleWhite r lw k)) = []
      \<and> mset (whiteDeck (fst (reshuffleWhite r lw k))) = mset (whiteDiscard lw)
      \<and> mset (whiteDeck (fst (reshuffleWhite r lw k))) + mset (whiteDiscard (fst (reshuffleWhite r lw k)))
          = mset (whiteDeck lw) + mset (whiteDiscard lw))
   \<and> (blackDeck lb = [] \<longrightarrow>
      blackDiscard (fst (reshuffleBlack r lb k)) = []
      \<and> mset (blackDeck (fst (reshuffleBlack r lb k))) = mset (blackDiscard lb)
      \<and> mset (blackDeck (fst (reshuffleBlack r lb k))) + mset (blackDiscard (fst (reshuffleBlack r lb k)))
          = mset (blackDeck lb) + mset (blackDiscard lb))
   \<and> (n \<le> length (whiteDeck ld) \<or> whiteDiscard ld = [] \<longrightarrow>
      whiteDiscard (fst (dealWhiteCards r ld i n k)) = whiteDiscard ld
      \<and> whiteDeck (fst (dealWhiteCards r ld i n k)) = take (length (whiteDeck ld) - n) (whiteDeck ld)
      \<and> snd (dealWhiteCards r ld i n k) = k)
   \<and> (length (whiteDeck le) < m \<and> whiteDiscard le \<noteq> [] \<longrightarrow>
      whiteDeck (fst (dealWhiteCards r le i (length (whiteDeck le)) k)) = []
      \<and> whiteDiscard (fst (dealWhiteCards r le i (length (whiteDeck le)) k)) = whiteDiscard le
      \<and> dealWhiteCards r le i m k =
          (case reshuffleWhite r (fst (dealWhiteCards r le i (length (whiteDeck le)) k)) k of
             (l1, k1) \<Rightarrow> dealWhiteCards r (dealOne l1 i) i (m - Suc (length (whiteDeck le))) k1))
   \<and> (i < length (players le) \<longrightarrow>
      mset (whiteDeck (fst (dealWhiteCards r le i m k)))
        + mset (whiteDiscard (fst (dealWhiteCards r le i m k)))
        + mset (concat (map hand (players (fst (dealWhiteCards r le i m k)))))
      = mset (whiteDeck le) + mset (whiteDiscard le) + mset (concat (map hand (players le))))
   \<and> (blackDeck ln \<noteq> [] \<and> nextRound r c ln k = Inr (l', k', out) \<longrightarrow>
      blackDeck l' = butlast (blackDeck ln) \<and> blackDiscard l' = blackDiscard ln @ prompt ln)
   \<and> (blackDeck lr = [] \<and> blackDiscard lr \<noteq> [] \<and> nextRound r c lr k = Inr (l2, k2, out2) \<longrightarrow>
      gameState l2 = playing \<and> blackDiscard l2 = prompt lr
      \<and> mset (blackDeck l2) + mset (prompt l2) = mset (blackDiscard lr))
   \<and> (blackDeck lz = [] \<and> blackDiscard lz = [] \<and> nextRound r c lz k = Inr (l3, k3, out3) \<longrightarrow>
      gameState l3 = gameOver \<and> blackDeck l3 = [] \<and> blackDiscard l3 = []
      \<and> currentBlackCard l3 = currentBlackCard lz \<and> k3 = k)"
  using reshuffleWhite_piles[of r lw k] reshuffleBlack_piles[of r lb k]
    dealWhiteCards_no_reshuffle[of n ld r i k] nextRound_black_no_reshuffle[of r c ln k l' k' out]
    dealWhiteCards_first_reshuffle[of le m r i k] dealWhiteCards_conserves[of i le r m k]
    nextRound_black_reshuffle[of r c lr k l2 k2 out2]
    nextRound_no_black[of r c lz k l3 k3 out3]
  by simp

theorem reshuffle_keeps_cards_witness:
  "(whiteDiscard (fst (reshuffleWhite (\<lambda>k. k) (tableSpent\<lparr>whiteDeck := []\<rparr>) 0)) = []
      \<and> mset (whiteDeck (fst (reshuffleWhite (\<lambda>k. k) (tableSpent\<lparr>whiteDeck := []\<rparr>) 0)))
          = mset (whiteDiscard (tableSpent\<lparr>whiteDeck := []\<rparr>))
      \<and> mset (whiteDeck (fst (reshuffleWhite (\<lambda>k. k) (tableSpent\<lparr>whiteDeck := []\<rparr>) 0)))
          + mset (whiteDiscard (fst (reshuffleWhite (\<lambda>k. k) (tableSpent\<lparr>whiteDeck := []\<rparr>) 0)))
          = mset (whiteDeck (tableSpent\<lparr>whiteDeck := []\<rparr>))
            + mset (whiteDiscard (tableSpent\<lparr>whiteDeck := []\<rparr>)))
   \<and> (blackDiscard (fst (reshuffleBlack (\<lambda>k. k) tableSpent 0)) = []
      \<and> mset (blackDeck (fst (reshuffleBlack (\<lambda>k. k) tableSpent 0))) = mset (blackDiscard tableSpent)
      \<and> mset (blackDeck (fst (reshuffleBlack (\<lambda>k. k) tableSpent 0)))
          + mset (blackDiscard (fst (reshuffleBlack (\<lambda>k. k) tableSpent 0)))
          = mset (blackDeck tableSpent) + mset (blackDiscard tableSpent))
   \<and> (whiteDiscard (fst (dealWhiteCards (\<lambda>k. k) tableSpent 0 1 0)) = whiteDiscard tableSpent
      \<and> whiteDeck (fst (dealWhiteCards (\<lambda>k. k) tableSpent 0 1 0))
          = take (length (whiteDeck tableSpent) - 1) (whiteDeck tableSpent)
      \<and> snd (dealWhiteCards (\<lambda>k. k) tableSpent 0 1 0) = 0)
   \<and> (whiteDeck (fst (dealWhiteCards (\<lambda>k. k) tableSpent 0 (length (whiteDeck tableSpent)) 0)) = []
      \<and> whiteDiscard (fst (dealWhiteCards (\<lambda>k. k) tableSpent 0 (length (whiteDeck tableSpent)) 0))
          = whiteDiscard tableSpent
      \<and> dealWhiteCards (\<lambda>k. k) tableSpent 0 3 0 =
          (case reshuffleWhite (\<lambda>k. k)
                  (fst (dealWhiteCards (\<lambda>k. k) tableSpent 0 (length (whiteDeck tableSpent)) 0)) 0 of
             (l1, k1) \<Rightarrow>
               dealWhiteCards (\<lambda>k. k) (dealOne l1 0) 0 (3 - Suc (length (whiteDeck tableSpent))) k1))
   \<and> (mset (whiteDeck (fst (dealWhiteCards (\<lambda>k. k) tableSpent 0 3 0)))
        + mset (whiteDiscard (fst (dealWhiteCards (\<lambda>k. k) tableSpent 0 3 0)))
        + mset (concat (map hand (players (fst (dealWhiteCards (\<lambda>k. k) tableSpent 0 3 0)))))
      = mset (whiteDeck tableSpent) + mset (whiteDiscard tableSpent)
        + mset (concat (map hand (players tableSpent))))
   \<and> (blackDeck (fst (projr (nextRound (\<lambda>k. k) ''ABCDE'' tableLobby 0))) = butlast (blackDeck tableLobby)
      \<and> blackDiscard (fst (projr (nextRound (\<lambda>k. k) ''ABCDE'' tableLobby 0)))
          = blackDiscard tableLobby @ prompt tableLobby)
   \<and> (gameState (fst (projr (nextRound (\<lambda>k. k) ''ABCDE'' tableSpent 0))) = playing
      \<and> blackDiscard (fst (projr (nextRound (\<lambda>k. k) ''ABCDE'' tableSpent 0))) = prompt tableSpent
      \<and> mset (blackDeck (fst (projr (nextRound (\<lambda>k. k) ''ABCDE'' tableSpent 0))))
          + mset (prompt (fst (projr (nextRound (\<lambda>k. k) ''ABCDE'' tableSpent 0))))
          = mset (blackDiscard tableSpent))
   \<and> gameState (fst (projr (nextRound (\<lambda>k. k) ''ABCDE'' (tableSpent\<lparr>blackDiscard := []\<rparr>) 0)))
       = gameOver
   \<and> map wid (whiteDeck (fst (reshuffleWhite (\<lambda>k. k) (tableSpent\<lparr>whiteDeck := []\<rparr>) 0)))
       = [''w_10'', ''w_9'', ''w_6'']
   \<and> map wid (whiteDeck (fst (dealWhiteCards (\<lambda>k. k) tableSpent 0 3 0))) = [''w_10'']
   \<and> map wid (hand (players (fst (dealWhiteCards (\<lambda>k. k) tableSpent 0 3 0)) ! 0))
       = [''w_0'', ''w_1'', ''w_4'', ''w_6'', ''w_9'']
   \<and> map bid (blackDeck (fst (projr (nextRound (\<lambda>k. k) ''ABCDE'' tableSpent 0))))
       = [''b_12'', ''b_11'']
   \<and> map bid (prompt (fst (projr (nextRound (\<lambda>k. k) ''ABCDE'' tableSpent 0)))) = [''b_7'']"
proof -
  let ?r = "\<lambda>k::nat. k"
  let ?nr = "nextRound ?r ''ABCDE'' tableLobby 0"
  let ?ns = "nextRound ?r ''ABCDE'' tableSpent 0"
  let ?nz = "nextRound ?r ''ABCDE'' (tableSpent\<lparr>blackDiscard := []\<rparr>) 0"
  have "\<not> isl ?nr" by code_simp
  then have nr: "?nr = Inr (fst (projr ?nr), fst (snd (projr ?nr)), snd (snd (projr ?nr)))"
    by (cases ?nr) auto
  have "\<not> isl ?ns" by code_simp
  then have ns: "?ns = Inr (fst (projr ?ns), fst (snd (projr ?ns)), snd (snd (projr ?ns)))"
    by (cases ?ns) auto
  have "\<not> isl ?nz" by code_simp
  then have nz: "?nz = Inr (fst (projr ?nz), fst (snd (projr ?nz)), snd (snd (projr ?nz)))"
    by (cases ?nz) auto
  have h1: "whiteDeck (tableSpent\<lparr>whiteDeck := []\<rparr>) = []" by simp
  have h2: "blackDeck tableSpent = []" by (simp add: tableSpent_def)
  have h3: "(1::nat) \<le> length (whiteDeck tableSpent)" by (simp add: tableSpent_def)
  have h4: "length (whiteDeck tableSpent) < 3" "whiteDiscard tableSpent \<noteq> []"
    by (simp_all add: tableSpent_def)
  have h5: "0 < length (players tableSpent)" by (simp add: tableSpent_def tableLobby_def)
  have h6: "blackDeck tableLobby \<noteq> []" by (simp add: tableLobby_def)
  have h7: "blackDiscard tableSpent \<noteq> []" by (simp add: tableSpent_def)
  have h8: "blackDeck (tableSpent\<lparr>blackDiscard := []\<rparr>) = []"
    "blackDiscard (tableSpent\<lparr>blackDiscard := []\<rparr>) = []" by (simp_all add: tableSpent_def)
  from reshuffle_keeps_cards[of "tableSpent\<lparr>whiteDeck := []\<rparr>" ?r 0 tableSpent 1 tableSpent 0
      tableSpent 3 tableLobby "''ABCDE''" "fst (projr ?nr)" "fst (snd (projr ?nr))" "snd (snd (projr ?nr))"
      tableSpent "fst (projr ?ns)" "fst (snd (projr ?ns))" "snd (snd (projr ?ns))"
      "tableSpent\<lparr>blackDiscard := []\<rparr>"
      "fst (projr ?nz)" "fst (snd (projr ?nz))" "snd (snd (projr ?nz))"]
    h1 h2 h3 h4 h5 h6 h7 h8 nr ns nz
  have inst: "(whiteDiscard (fst (reshuffleWhite (\<lambda>k. k) (tableSpent\<lparr>whiteDeck := []\<rparr>) 0)) = []
      \<and> mset (whiteDeck (fst (reshuffleWhite (\<lambda>k. k) (tableSpent\<lparr>whiteDeck := []\<rparr>) 0)))
          = mset (whiteDiscard (tableSpent\<lparr>whiteDeck := []\<rparr>))
      \<and> mset (whiteDeck (fst (reshuffleWhite (\<lambda>k. k) (tableSpent\<lparr>whiteDeck := []\<rparr>) 0)))
          + mset (whiteDiscard (fst (reshuffleWhite (\<lambda>k. k) (tableSpent\<lparr>whiteDeck := []\<rparr>) 0)))
          = mset (whiteDeck (tableSpent\<lparr>whiteDeck := []\<rparr>))
            + mset (whiteDiscard (tableSpent\<lparr>whiteDeck := []\<rparr>)))
   \<and> (blackDiscard (fst (reshuffleBlack (\<lambda>k. k) tableSpent 0)) = []
      \<and> mset (blackDeck (fst (reshuffleBlack (\<lambda>k. k) tableSpent 0))) = mset (blackDiscard tableSpent)
      \<and> mset (blackDeck (fst (reshuffleBlack (\<lambda>k. k) tableSpent 0)))
          + mset (blackDiscard (fst (reshuffleBlack (\<lambda>k. k) tableSpent 0)))
          = mset (blackDeck tableSpent) + mset (blackDiscard tableSpent))
   \<and> (whiteDiscard (fst (dealWhiteCards (\<lambda>k. k) tableSpent 0 1 0)) = whiteDiscard tableSpent
      \<and> whiteDeck (fst (dealWhiteCards (\<lambda>k. k) tableSpent 0 1 0))
          = take (length (whiteDeck tableSpent) - 1) (whiteDeck tableSpent)
      \<and> snd (dealWhiteCards (\<lambda>k. k) tableSpent 0 1 0) = 0)
   \<and> (whiteDeck (fst (dealWhiteCards (\<lambda>k. k) tableSpent 0 (length (whiteDeck tableSpent)) 0)) = []
      \<and> whiteDiscard (fst (dealWhiteCards (\<lambda>k. k) tableSpent 0 (length (whiteDeck tableSpent)) 0))
          = whiteDiscard tableSpent
      \<and> dealWhiteCards (\<lambda>k. k) tableSpent 0 3 0 =
          (case reshuffleWhite (\<lambda>k. k)
                  (fst (dealWhiteCards (\<lambda>k. k) tableSpent 0 (length (whiteDeck tableSpent)) 0)) 0 of
             (l1, k1) \<Rightarrow>
               dealWhiteCards (\<lambda>k. k) (dealOne l1 0) 0 (3 - Suc (length (whiteDeck tableSpent))) k1))
   \<and> (mset (whiteDeck (fst (dealWhiteCards (\<lambda>k. k) tableSpent 0 3 0)))
        + mset (whiteDiscard (fst (dealWhiteCards (\<lambda>k. k) tableSpent 0 3 0)))
        + mset (concat (map hand (players (fst (dealWhiteCards (\<lambda>k. k) tableSpent 0 3 0)))))
      = mset (whiteDeck tableSpent) + mset (whiteDiscard tableSpent)
        + mset (concat (map hand (players tableSpent))))
   \<and> (blackDeck (fst (projr (nextRound (\<lambda>k. k) ''ABCDE'' tableLobby 0))) = butlast (blackDeck tableLobby)
      \<and> blackDiscard (fst (projr (nextRound (\<lambda>k. k) ''ABCDE'' tableLobby 0)))
          = blackDiscard tableLobby @ prompt tableLobby)
   \<and> (gameState (fst (projr (nextRound (\<lambda>k. k) ''ABCDE'' tableSpent 0))) = playing
      \<and> blackDiscard (fst (projr (nextRound (\<lambda>k. k) ''ABCDE'' tableSpent 0))) = prompt tableSpent
      \<and> mset (blackDeck (fst (projr (nextRound (\<lambda>k. k) ''ABCDE'' tableSpent 0))))
          + mset (prompt (fst (projr (nextRound (\<lambda>k. k) ''ABCDE'' tableSpent 0))))
          = mset (blackDiscard tableSpent))
   \<and> gameState (fst (projr (nextRound (\<lambda>k. k) ''ABCDE'' (tableSpent\<lparr>blackDiscard := []\<rparr>) 0)))
       = gameOver"
    by blast
  have v1: "map wid (whiteDeck (fst (reshuffleWhite (\<lambda>k. k) (tableSpent\<lparr>whiteDeck := []\<rparr>) 0)))
       = [''w_10'', ''w_9'', ''w_6'']" by code_simp
  have v2: "map wid (whiteDeck (fst (dealWhiteCards (\<lambda>k. k) tableSpent 0 3 0))) = [''w_10'']"
    by code_simp
  have v3: "map wid (hand (players (fst (dealWhiteCards (\<lambda>k. k) tableSpent 0 3 0)) ! 0))
       = [''w_0'', ''w_1'', ''w_4'', ''w_6'', ''w_9'']" by code_simp
  have v4: "map bid (blackDeck (fst (projr (nextRound (\<lambda>k. k) ''ABCDE'' tableSpent 0))))
       = [''b_12'', ''b_11'']" by code_simp
  have v5: "map bid (prompt (fst (projr (nextRound (\<lambda>k. k) ''ABCDE'' tableSpent 0)))) = [''b_7'']"
    by code_simp
  from inst v1 v2 v3 v4 v5 show ?thesis by (intro conjI) (erule conjE | assumption)+
qed

section \<open>The round state machine\<close>

lemma getLobby_putLobby:
  "getLobby (putLobby c l w) c' = (if c' = c then Some l else getLobby w c')"
  by (simp add: getLobby_def putLobby_def update_conv')

lemma getLobby_deleteLobby:
  "getLobby (deleteLobby c w) c' = (if c' = c then None else getLobby w c')"
  by (simp add: getLobby_def deleteLobby_def delete_conv')

lemma getLobby_calls: "getLobby (w\<lparr>calls := k\<rparr>) c = getLobby w c"
  by (simp add: getLobby_def)

lemma getLobby_timers: "getLobby (w\<lparr>timers := ts\<rparr>) c = getLobby w c"
  by (simp add: getLobby_def)

lemma drawPrompt_gameState: "gameState (fst (drawPrompt r c l k)) = gameState l"
proof -
  let ?l4 = "(case currentBlackCard l of
                  Some b \<Rightarrow> l\<lparr>blackDiscard := blackDiscard l @ [b]\<rparr>
                | None \<Rightarrow> l)"
  let ?l5 = "(case pop (blackDeck ?l4) of
                  (b, rest) \<Rightarrow> ?l4\<lparr>currentBlackCard := b, blackDeck := rest\<rparr>)"
  have "fst (drawPrompt r c l k) = fst (replenishHands r ?l5 k)"
    by (simp add: drawPrompt_def Let_def split: prod.splits)
  moreover have "sameBlack ?l5 (fst (replenishHands r ?l5 k))" by (rule replenishHands_frame)
  moreover have "gameState ?l5 = gameState l"
    by (simp add: pop_def split: option.splits)
  ultimately show ?thesis by (simp add: sameBlack_def)
qed

lemma nextRound_gameState:
  assumes "nextRound r c l k = Inr (l', k', out)"
  shows "gameState l' = playing \<or> gameState l' = gameOver"
proof -
  let ?l1 = "l\<lparr>gameState := playing, roundSubmissions := [], roundWinnerInfo := None,
                  players := map (\<lambda>p. p\<lparr>submittedCards := None\<rparr>) (players l)\<rparr>"
  let ?l2 = "?l1\<lparr>czarId := Some (pid (players ?l1 ! nat ((findIndex (\<lambda>p. Some (pid p) = czarId ?l1) (players ?l1) + 1) mod int (length (players ?l1)))))\<rparr>"
  let ?l3 = "fst (reshuffleBlack r ?l2 k)"
  let ?k3 = "snd (reshuffleBlack r ?l2 k)"
  from assms consider
      (over) "l' = ?l2\<lparr>gameState := gameOver\<rparr>"
    | (reshuffled) "l' = fst (drawPrompt r c ?l3 ?k3)"
    | (plain) "l' = fst (drawPrompt r c ?l2 k)"
    by (auto simp add: nextRound_def Let_def split: if_splits prod.splits)
  then show ?thesis
  proof cases
    case over
    then show ?thesis by simp
  next
    case reshuffled
    then show ?thesis by (simp add: drawPrompt_gameState reshuffleBlack_def split: prod.splits)
  next
    case plain
    then show ?thesis by (simp add: drawPrompt_gameState)
  qed
qed

lemma startNextRound_effect:
  assumes "startNextRound c1 w = Inr (w', out)"
    and "getLobby w c = Some l" and "getLobby w' c = Some l'"
  shows "(c \<noteq> c1 \<and> l' = l) \<or> (c = c1 \<and> (gameState l' = playing \<or> gameState l' = gameOver))"
proof (cases "getLobby w c1")
  case None
  with assms show ?thesis by (auto simp add: startNextRound_def)
next
  case (Some l1)
  with assms(1) obtain l2 k2 where nr: "nextRound (rnd w) c1 l1 (calls w) = Inr (l2, k2, out)"
    and w': "w' = (putLobby c1 l2 w)\<lparr>calls := k2\<rparr>"
    by (auto simp add: startNextRound_def split: sum.splits)
  show ?thesis
  proof (cases "c = c1")
    case True
    with w' assms(3) have "l' = l2" by (simp add: getLobby_calls getLobby_putLobby)
    with nextRound_gameState[OF nr] True show ?thesis by simp
  next
    case False
    with w' assms(2,3) show ?thesis by (simp add: getLobby_calls getLobby_putLobby)
  qed
qed

lemma generateLobbyCode_fresh:
  "generateLobbyCode ls cs k = Some y \<Longrightarrow> map_of ls (fst y) = None"
  by (induction rule: generateLobbyCode.raw_induct[rotated 1, consumes 1])
     (auto split: if_splits)

lemma createLobby_effect:
  assumes "createLobby sid nm st w = Inr (w', out)" and "getLobby w c = Some l"
  shows "getLobby w' c = Some l"
proof -
  from assms(1) obtain c1 k1 l1 where g: "generateLobbyCode (lobbies w) (\<lambda>k. codeOf w (rnd w k)) (calls w) = Some (c1, k1)"
    and w': "w' = (putLobby c1 l1 w)\<lparr>calls := k1\<rparr>"
    by (auto simp add: createLobby_def Let_def split: option.splits)
  from generateLobbyCode_fresh[OF g] have "getLobby w c1 = None" by (simp add: getLobby_def)
  with assms(2) have "c \<noteq> c1" by auto
  with w' assms(2) show ?thesis by (simp add: getLobby_calls getLobby_putLobby)
qed

lemma joinLobby_effect:
  assumes "joinLobby sid c1 nm w = Inr (w', out)"
    and "getLobby w c = Some l" and "getLobby w' c = Some l'"
  shows "l' = l \<or> (gameState l = waiting \<and> gameState l' = waiting)"
  using assms
  by (auto simp add: joinLobby_def Let_def getLobby_putLobby split: option.splits if_splits)

lemma updateSettings_effect:
  assumes "updateSettings sid c1 st w = Inr (w', out)"
    and "getLobby w c = Some l" and "getLobby w' c = Some l'"
  shows "l' = l \<or> (gameState l = waiting \<and> gameState l' = waiting)"
  using assms
  by (auto simp add: updateSettings_def Let_def getLobby_putLobby split: option.splits if_splits)

lemma requestNextRound_effect:
  assumes "requestNextRound sid c1 w = Inr (w', out)"
    and "getLobby w c = Some l" and "getLobby w' c = Some l'"
  shows "l' = l \<or> (c = c1 \<and> (hostId l = sid \<or> gameState l = roundOver) \<and> gameState l \<noteq> gameOver
            \<and> (gameState l' = playing \<or> gameState l' = gameOver))"
proof (cases "getLobby w c1")
  case None
  with assms show ?thesis by (simp add: requestNextRound_def)
next
  case (Some l1)
  show ?thesis
  proof (cases "(hostId l1 = sid \<or> gameState l1 = roundOver) \<and> gameState l1 \<noteq> gameOver")
    case False
    with Some assms show ?thesis by (auto simp add: requestNextRound_def)
  next
    case True
    with Some assms(1) have "startNextRound c1 w = Inr (w', out)" by (simp add: requestNextRound_def)
    from startNextRound_effect[OF this assms(2,3)] True Some assms(2) show ?thesis by auto
  qed
qed

lemma autoAdvance_effect:
  assumes "autoAdvance c1 w = Inr (w', out)"
    and "getLobby w c = Some l" and "getLobby w' c = Some l'"
  shows "l' = l \<or> (gameState l = roundOver \<and> (gameState l' = playing \<or> gameState l' = gameOver))"
proof (cases "getLobby w c1")
  case None
  with assms show ?thesis by (simp add: autoAdvance_def)
next
  case (Some l1)
  show ?thesis
  proof (cases "gameState l1 = roundOver")
    case False
    with Some assms show ?thesis by (auto simp add: autoAdvance_def)
  next
    case True
    with Some assms(1) have "startNextRound c1 w = Inr (w', out)" by (simp add: autoAdvance_def)
    from startNextRound_effect[OF this assms(2,3)] True Some assms(2) show ?thesis by auto
  qed
qed

lemma submitCards_effect:
  assumes "submitCards sid c1 ids w = Inr (w', out)"
    and "getLobby w c = Some l" and "getLobby w' c = Some l'"
  shows "l' = l \<or> (gameState l = playing \<and> (gameState l' = playing \<or> gameState l' = judging))"
  using assms
  by (auto simp add: submitCards_def Let_def getLobby_putLobby getLobby_calls
           split: option.splits if_splits prod.splits)

lemma selectWinner_effect:
  assumes "selectWinner sid c1 wp w = Inr (w', out)"
    and "getLobby w c = Some l" and "getLobby w' c = Some l'"
  shows "l' = l \<or> (gameState l = judging \<and> (gameState l' = roundOver \<or> gameState l' = gameOver))"
  using assms
  by (auto simp add: selectWinner_def Let_def getLobby_putLobby getLobby_timers
           split: option.splits if_splits prod.splits)


lemma startGame_effect:
  assumes "startGame sid c1 w = Inr (w', out)"
    and "getLobby w c = Some l" and "getLobby w' c = Some l'"
  shows "l' = l \<or> (c = c1 \<and> hostId l = sid \<and> gameState l = waiting
            \<and> (gameState l' = playing \<or> gameState l' = gameOver))"
proof (cases "getLobby w c1")
  case None
  with assms show ?thesis by (simp add: startGame_def)
next
  case (Some l1)
  show ?thesis
  proof (cases "hostId l1 \<noteq> sid \<or> gameState l1 \<noteq> waiting \<or> length (players l1) < 3")
    case True
    with Some assms show ?thesis by (auto simp add: startGame_def split: if_splits)
  next
    case False
    with Some assms(1) obtain l3 k3 out' where
      sn: "startNextRound c1 ((putLobby c1 l3 w)\<lparr>calls := k3\<rparr>) = Inr (w', out')"
      by (auto simp add: startGame_def Let_def split: prod.splits sum.splits)
    show ?thesis
    proof (cases "c = c1")
      case True
      have "getLobby ((putLobby c1 l3 w)\<lparr>calls := k3\<rparr>) c = Some l3"
        using True by (simp add: getLobby_calls getLobby_putLobby)
      from startNextRound_effect[OF sn this assms(3)] True
      have "gameState l' = playing \<or> gameState l' = gameOver" by simp
      with True False Some assms(2) show ?thesis by auto
    next
      case False
      then have "getLobby ((putLobby c1 l3 w)\<lparr>calls := k3\<rparr>) c = Some l"
        using assms(2) by (simp add: getLobby_calls getLobby_putLobby)
      from startNextRound_effect[OF sn this assms(3)] False show ?thesis by simp
    qed
  qed
qed

lemma recoverRound_effect:
  assumes "recoverRound sid c1 nm l2 w = Inr (w', out)"
    and "getLobby w' c = Some l'"
  shows "(c \<noteq> c1 \<and> getLobby w c = Some l')
     \<or> (c = c1 \<and> (gameState l' = gameState l2
         \<or> (gameState l2 \<noteq> waiting \<and> gameState l2 \<noteq> gameOver
             \<and> ((czarId l2 = Some sid \<and> (gameState l' = playing \<or> gameState l' = gameOver))
                 \<or> gameState l' = gameOver))))"
proof -
  define w2 where "w2 = putLobby c1 l2 w"
  have sn: "\<And>x. (case startNextRound c1 w2 of Inl e \<Rightarrow> Inl e
               | Inr (w3, out) \<Rightarrow> Inr (w3, x w3 out)) = Inr (w', out)
            \<Longrightarrow> \<exists>out'. startNextRound c1 w2 = Inr (w', out')"
    by (cases "startNextRound c1 w2") auto
  from assms(1) consider
      (czar) out' where "gameState l2 \<noteq> waiting" "gameState l2 \<noteq> gameOver" "czarId l2 = Some sid"
        "startNextRound c1 w2 = Inr (w', out')"
    | (few) "gameState l2 \<noteq> waiting" "gameState l2 \<noteq> gameOver"
        "w' = putLobby c1 (l2\<lparr>gameState := gameOver\<rparr>) w2"
    | (stay) "w' = w2"
    unfolding recoverRound_def Let_def w2_def[symmetric]
    by (auto split: if_splits sum.splits)
  then show ?thesis
  proof cases
    case czar
    show ?thesis
    proof (cases "c = c1")
      case True
      then have "getLobby w2 c = Some l2" by (simp add: w2_def getLobby_putLobby)
      from startNextRound_effect[OF czar(4) this assms(2)] True czar(1,2,3)
      show ?thesis by auto
    next
      case False
      show ?thesis
      proof (cases "getLobby w c")
        case None
        from czar(4) assms(2) False None show ?thesis
          by (auto simp add: startNextRound_def w2_def getLobby_putLobby getLobby_calls
                   split: option.splits sum.splits)
      next
        case (Some l)
        with False have "getLobby w2 c = Some l" by (simp add: w2_def getLobby_putLobby)
        from startNextRound_effect[OF czar(4) this assms(2)] False Some show ?thesis by simp
      qed
    qed
  next
    case few
    with assms(2) show ?thesis
      by (auto simp add: w2_def getLobby_putLobby split: if_splits)
  next
    case stay
    with assms(2) show ?thesis
      by (auto simp add: w2_def getLobby_putLobby split: if_splits)
  qed
qed

lemma removeMember_effect:
  assumes "removeMember sid c1 l0 w = Inr (w', out)"
    and "getLobby w' c = Some l'"
  shows "(c \<noteq> c1 \<and> getLobby w c = Some l')
     \<or> (c = c1 \<and> (gameState l' = gameState l0
         \<or> (gameState l0 \<noteq> waiting \<and> gameState l0 \<noteq> gameOver
             \<and> ((czarId l0 = Some sid \<and> (gameState l' = playing \<or> gameState l' = gameOver))
                 \<or> gameState l' = gameOver))))"
proof -
  define l1 where "l1 = l0\<lparr>players := take (nat (findIndex (\<lambda>p. pid p = sid) (players l0))) (players l0)
                 @ drop (Suc (nat (findIndex (\<lambda>p. pid p = sid) (players l0)))) (players l0)\<rparr>"
  define l2 where "l2 = (if hostId l1 = sid then l1\<lparr>hostId := pid (players l1 ! 0)\<rparr> else l1)"
  have l2: "gameState l2 = gameState l0" "czarId l2 = czarId l0"
    by (simp_all add: l2_def l1_def)
  from assms(1) consider
      (gone) "w' = deleteLobby c1 w"
    | (rest) nm where "recoverRound sid c1 nm l2 w = Inr (w', out)"
    unfolding removeMember_def Let_def l1_def[symmetric] l2_def[symmetric]
    by (auto split: if_splits)
  then show ?thesis
  proof cases
    case gone
    with assms(2) show ?thesis by (auto simp add: getLobby_deleteLobby split: if_splits)
  next
    case rest
    from recoverRound_effect[OF rest assms(2)] l2 show ?thesis by simp
  qed
qed

lemma disconnect_effect:
  assumes "disconnect sid w = Inr (w', out)"
    and "getLobby w c = Some l" and "getLobby w' c = Some l'"
  shows "l' = l \<or> gameState l' = gameState l
     \<or> (gameState l \<noteq> waiting \<and> gameState l \<noteq> gameOver
         \<and> ((czarId l = Some sid \<and> (gameState l' = playing \<or> gameState l' = gameOver))
             \<or> gameState l' = gameOver))"
proof -
  from assms(1) consider
      (none) "w' = w"
    | (some) c1 l0 where "getLobby w c1 = Some l0" "removeMember sid c1 l0 w = Inr (w', out)"
    by (auto simp add: disconnect_def split: option.splits)
  then show ?thesis
  proof cases
    case none
    with assms(2,3) show ?thesis by simp
  next
    case some
    from removeMember_effect[OF some(2) assms(3)] some(1) assms(2) show ?thesis by auto
  qed
qed

lemma startNextRound_keeps_lobbies:
  assumes "startNextRound c1 w = Inr (w', out)" and "getLobby w c = Some l"
  shows "getLobby w' c \<noteq> None"
  using assms
  by (auto simp add: startNextRound_def getLobby_putLobby getLobby_calls
           split: option.splits sum.splits)

lemma lobby_survives:
  assumes "handle e w = Inr (w', out)" and "getLobby w c = Some l"
    and "\<forall>sid. e \<noteq> Disconnect sid"
  shows "getLobby w' c \<noteq> None"
proof (cases e)
  case (CreateLobby sid nm st)
  with assms createLobby_effect[of sid nm st w w' out c l] show ?thesis by simp
next
  case (JoinLobby sid c1 nm)
  with assms show ?thesis
    by (auto simp add: joinLobby_def Let_def getLobby_putLobby split: option.splits if_splits)
next
  case (UpdateSettings sid c1 st)
  with assms show ?thesis
    by (auto simp add: updateSettings_def Let_def getLobby_putLobby split: option.splits if_splits)
next
  case (StartGame sid c1)
  with assms(1) consider "w' = w"
    | l3 k3 out' where "startNextRound c1 ((putLobby c1 l3 w)\<lparr>calls := k3\<rparr>) = Inr (w', out')"
    by (auto simp add: startGame_def Let_def split: option.splits if_splits prod.splits sum.splits)
  then show ?thesis
  proof cases
    case 1
    with assms(2) show ?thesis by simp
  next
    case 2
    have "getLobby ((putLobby c1 l3 w)\<lparr>calls := k3\<rparr>) c \<noteq> None"
      using assms(2) by (simp add: getLobby_putLobby getLobby_calls)
    then obtain l0 where "getLobby ((putLobby c1 l3 w)\<lparr>calls := k3\<rparr>) c = Some l0" by auto
    from startNextRound_keeps_lobbies[OF 2 this] show ?thesis .
  qed
next
  case (SubmitCards sid c1 ids)
  with assms show ?thesis
    by (auto simp add: submitCards_def Let_def getLobby_putLobby getLobby_calls
             split: option.splits if_splits prod.splits)
next
  case (SelectWinner sid c1 wp)
  with assms show ?thesis
    by (auto simp add: selectWinner_def Let_def getLobby_putLobby getLobby_timers
             split: option.splits if_splits prod.splits)
next
  case (RequestNextRound sid c1)
  with assms show ?thesis
    by (auto simp add: requestNextRound_def split: option.splits if_splits
             dest: startNextRound_keeps_lobbies)
next
  case (Disconnect sid)
  with assms(3) show ?thesis by simp
next
  case Timeout
  show ?thesis
  proof (cases "timers w")
    case Nil
    with Timeout assms show ?thesis by auto
  next
    case (Cons c1 cs)
    have g: "getLobby (w\<lparr>timers := cs\<rparr>) c = Some l" using assms(2) by (simp add: getLobby_timers)
    from Cons Timeout assms(1) have "autoAdvance c1 (w\<lparr>timers := cs\<rparr>) = Inr (w', out)" by simp
    with g show ?thesis
      by (auto simp add: autoAdvance_def split: option.splits if_splits
               dest: startNextRound_keeps_lobbies)
  qed
qed

lemma game_state_steps:
  assumes "handle e w = Inr (w', out)"
    and "getLobby w c = Some l" and "getLobby w' c = Some l'"
  shows "mayFollow (gameState l) (gameState l')
     \<and> (gameState l = waiting \<and> gameState l' \<noteq> waiting \<longrightarrow>
          e = StartGame (hostId l) c \<or> e = RequestNextRound (hostId l) c)
     \<and> (gameState l = judging \<and> gameState l' = playing \<longrightarrow>
          e = RequestNextRound (hostId l) c \<or> e = Disconnect (the (czarId l)))
     \<and> (gameState l = gameOver \<and> l' \<noteq> l \<longrightarrow> (\<exists>sid. e = Disconnect sid))"
proof (cases e)
  case (CreateLobby sid nm st)
  with assms createLobby_effect[of sid nm st w w' out c l] show ?thesis
    by (cases "gameState l") auto
next
  case (JoinLobby sid c1 nm)
  with assms joinLobby_effect[of sid c1 nm w w' out c l l'] show ?thesis
    by (cases "gameState l") auto
next
  case (UpdateSettings sid c1 st)
  with assms updateSettings_effect[of sid c1 st w w' out c l l'] show ?thesis
    by (cases "gameState l") auto
next
  case (StartGame sid c1)
  with assms startGame_effect[of sid c1 w w' out c l l'] show ?thesis
    by (cases "gameState l") auto
next
  case (SubmitCards sid c1 ids)
  with assms submitCards_effect[of sid c1 ids w w' out c l l'] show ?thesis
    by (cases "gameState l") auto
next
  case (SelectWinner sid c1 wp)
  with assms selectWinner_effect[of sid c1 wp w w' out c l l'] show ?thesis
    by (cases "gameState l") auto
next
  case (RequestNextRound sid c1)
  with assms requestNextRound_effect[of sid c1 w w' out c l l'] show ?thesis
    by (cases "gameState l") auto
next
  case (Disconnect sid)
  with assms disconnect_effect[of sid w w' out c l l'] show ?thesis
    by (cases "gameState l") auto
next
  case Timeout
  show ?thesis
  proof (cases "timers w")
    case Nil
    with Timeout assms show ?thesis by (cases "gameState l") auto
  next
    case (Cons c1 cs)
    with Timeout assms have a: "autoAdvance c1 (w\<lparr>timers := cs\<rparr>) = Inr (w', out)" by simp
    have "getLobby (w\<lparr>timers := cs\<rparr>) c = Some l" using assms(2) by (simp add: getLobby_timers)
    from autoAdvance_effect[OF a this assms(3)] show ?thesis
      by (cases "gameState l") auto
  qed
qed

section \<open>Submitting cards\<close>

lemma resolveCards_None_iff:
  "resolveCards h ids = None \<longleftrightarrow> (\<exists>i \<in> set ids. find (\<lambda>cd. wid cd = i) h = None)"
  by (induction ids) (auto split: option.splits)

text \<open>For a prompt whose \<^verbatim>\<open>pick\<close> is a number other than \<open>0\<close>, the count the handler
  compares with is that number.\<close>

lemma pickCount_pick: "pick b = Some n \<Longrightarrow> n \<noteq> 0 \<Longrightarrow> pickCount b = n"
  by (simp add: pickCount_def orDefault_def)

text \<open>
  Claim C2: a \<^verbatim>\<open>submitCards\<close> in state \<^verbatim>\<open>playing\<close> from a member who is not the czar and
  has not submitted, whose \<^verbatim>\<open>cardIds\<close> is not an array of exactly the prompt's pick count
  or names a card that is not in the member's hand, is rejected: an error goes to the
  acting connection only and the server state is what it was.

  The pick count is \<open>pickCount\<close>, the value \<^verbatim>\<open>pick || 1\<close> the handler compares with
  (\<open>pickCount_pick\<close>); a session in \<^verbatim>\<open>playing\<close> always has a prompt
  (\<open>reachable_prompt\<close>). The result is the unchanged \<open>w\<close> and one message to \<open>sid\<close>:
  \<open>InvalidSubmission\<close> for a wrong count, \<open>InvalidCard\<close> otherwise.
\<close>

theorem submitCards_invalid_rejected:
  assumes lobby: "getLobby w c = Some l"
    and member: "getLobbyPlayer l sid = Some p"
    and state: "gameState l = playing"
    and nonCzar: "czarId l \<noteq> Some sid"
    and fresh: "submittedCards p = None"
    and prompt: "currentBlackCard l = Some b"
    and invalid: "cardIds = None
       \<or> (\<exists>ids. cardIds = Some ids
             \<and> (int (length ids) \<noteq> pickCount b
                 \<or> (\<exists>i \<in> set ids. find (\<lambda>cd. wid cd = i) (hand p) = None)))"
  shows "submitCards sid c cardIds w =
           Inr (w, [ToSocket sid (GameErrorMsg
                  (if (case cardIds of None \<Rightarrow> True | Some ids \<Rightarrow> int (length ids) \<noteq> pickCount b)
                   then InvalidSubmission (pickCount b) else InvalidCard))])"
proof -
  from member have sid: "pid p = sid"
    by (auto simp add: getLobbyPlayer_def find_Some_iff)
  show ?thesis
  proof (cases cardIds)
    case None
    with lobby member state nonCzar fresh prompt sid show ?thesis
      by (auto simp add: submitCards_def)
  next
    case (Some ids)
    show ?thesis
    proof (cases "int (length ids) \<noteq> pickCount b")
      case True
      with Some lobby member state nonCzar fresh prompt sid show ?thesis
        by (auto simp add: submitCards_def)
    next
      case False
      with invalid Some have "\<exists>i \<in> set ids. find (\<lambda>cd. wid cd = i) (hand p) = None" by auto
      then have "resolveCards (hand p) ids = None" by (simp add: resolveCards_None_iff)
      with False Some lobby member state nonCzar fresh prompt sid show ?thesis
        by (auto simp add: submitCards_def)
    qed
  qed
qed

theorem submitCards_invalid_rejected_witness:
  "submitCards ''s1'' ''ABCDE'' (Some [''w_0'', ''w_1'']) tableWorld
     = Inr (tableWorld, [ToSocket ''s1'' (GameErrorMsg (InvalidSubmission 1))])
   \<and> submitCards ''s1'' ''ABCDE'' (Some [''w_3'']) tableWorld
     = Inr (tableWorld, [ToSocket ''s1'' (GameErrorMsg InvalidCard)])"
proof -
  let ?p = "\<lparr>pid = ''s1'', name = ''Ann'', score = 0,
          hand = [\<lparr>wid = ''w_0'', wtext = ''a''\<rparr>, \<lparr>wid = ''w_1'', wtext = ''b''\<rparr>],
          submittedCards = None\<rparr>"
  let ?b = "\<lparr>bid = ''b_8'', btext = ''Q2'', pick = Some 1\<rparr>"
  have h1: "getLobby tableWorld ''ABCDE'' = Some tableLobby"
    by (simp add: getLobby_def tableWorld_def)
  have h2: "getLobbyPlayer tableLobby ''s1'' = Some ?p"
    by (simp add: getLobbyPlayer_def tableLobby_def)
  have h3: "gameState tableLobby = playing" by (simp add: tableLobby_def)
  have h4: "czarId tableLobby \<noteq> Some ''s1''" by (simp add: tableLobby_def)
  have h5: "submittedCards ?p = None" by simp
  have h6: "currentBlackCard tableLobby = Some ?b" by (simp add: tableLobby_def)
  have pc: "pickCount ?b = 1" by (simp add: pickCount_def orDefault_def)
  have i1: "Some [''w_0'', ''w_1''] = None
       \<or> (\<exists>ids. Some [''w_0'', ''w_1''] = Some ids
             \<and> (int (length ids) \<noteq> pickCount ?b
                 \<or> (\<exists>i \<in> set ids. find (\<lambda>cd. wid cd = i) (hand ?p) = None)))"
    by (simp add: pc)
  have i2: "Some [''w_3''] = None
       \<or> (\<exists>ids. Some [''w_3''] = Some ids
             \<and> (int (length ids) \<noteq> pickCount ?b
                 \<or> (\<exists>i \<in> set ids. find (\<lambda>cd. wid cd = i) (hand ?p) = None)))"
    by simp
  from submitCards_invalid_rejected[OF h1 h2 h3 h4 h5 h6 i1]
       submitCards_invalid_rejected[OF h1 h2 h3 h4 h5 h6 i2] pc
  show ?thesis by simp
qed

text \<open>A member who has submitted is ignored when submitting again.\<close>

lemma submitCards_twice_ignored:
  assumes "getLobby w c = Some l" and "getLobbyPlayer l sid = Some p" and "submittedCards p \<noteq> None"
  shows "submitCards sid c cardIds w = Inr (w, [])"
  using assms by (simp add: submitCards_def)

text \<open>An accepted submission adds one entry to the round's list, and the round moves to
  \<^verbatim>\<open>judging\<close> exactly if the list is then as long as the list of members who are not
  the czar.\<close>

lemma submitCards_judging_iff:
  assumes "getLobby w c = Some l" and "submitCards sid c cardIds w = Inr (w', out)"
    and "getLobby w' c = Some l'" and "l' \<noteq> l"
  shows "length (roundSubmissions l') = Suc (length (roundSubmissions l))
     \<and> (gameState l' = judging \<longleftrightarrow> length (roundSubmissions l') = length (nonCzars l'))"
proof -
  from assms obtain p b ids objs where
    facts: "getLobbyPlayer l sid = Some p" "gameState l = playing" "Some (pid p) \<noteq> czarId l"
      "submittedCards p = None" "currentBlackCard l = Some b" "cardIds = Some ids"
      "int (length ids) = pickCount b" "resolveCards (hand p) ids = Some objs"
    by (auto simp add: submitCards_def split: option.splits if_splits)
  define l1 where "l1 = l\<lparr>players :=
         updateFirst (\<lambda>q. pid q = sid)
           (\<lambda>q. q\<lparr>submittedCards := Some objs,
                   hand := filter (\<lambda>card. \<not> List.member ids (wid card)) (hand p)\<rparr>)
           (players l),
       roundSubmissions := roundSubmissions l @
         [\<lparr>playerId = pid p, playerName = name p, cards = objs\<rparr>]\<rparr>"
  have l1: "length (roundSubmissions l1) = Suc (length (roundSubmissions l))" "gameState l1 = playing"
    by (simp_all add: l1_def facts)
  obtain subs k' where sh: "shuffleArray (rnd w) (roundSubmissions l1) (calls w) = (subs, k')"
    by (cases "shuffleArray (rnd w) (roundSubmissions l1) (calls w)")
  from sh have len: "length subs = length (roundSubmissions l1)" by (rule shuffleArray_length_pair)
  have "map_sum id fst (submitCards sid c cardIds w) =
      (if length (roundSubmissions l1) = length (nonCzars l1)
       then Inr ((putLobby c (l1\<lparr>gameState := judging, roundSubmissions := subs\<rparr>) w)\<lparr>calls := k'\<rparr>)
       else Inr (putLobby c l1 w))"
    using sh unfolding l1_def nonCzars_def
    by (simp add: submitCards_def assms(1) facts Let_def)
  with assms(2,3) have "l' = (if length (roundSubmissions l1) = length (nonCzars l1)
       then l1\<lparr>gameState := judging, roundSubmissions := subs\<rparr> else l1)"
    by (auto simp add: getLobby_putLobby getLobby_calls split: if_splits)
  with l1 len show ?thesis by (simp add: nonCzars_def)
qed

text \<open>Once every member is the czar or has submitted, no \<^verbatim>\<open>submitCards\<close> is accepted.\<close>

lemma submitCards_all_done_ignored:
  assumes "getLobby w c = Some l"
    and "\<forall>p \<in> set (players l). Some (pid p) = czarId l \<or> submittedCards p \<noteq> None"
  shows "submitCards sid c cardIds w = Inr (w, [])"
proof (cases "getLobbyPlayer l sid")
  case None
  with assms(1) show ?thesis by (simp add: submitCards_def)
next
  case (Some p)
  then have "p \<in> set (players l)" by (auto simp add: getLobbyPlayer_def find_Some_iff)
  with assms Some show ?thesis by (auto simp add: submitCards_def)
qed

text \<open>
  Claim C1: the round moves to \<^verbatim>\<open>judging\<close> exactly when the number of submissions equals
  the number of members who are not the czar, and no sequence of events leaves a session
  in \<^verbatim>\<open>playing\<close> while the two numbers are equal, for example when a member who has not
  submitted disconnects after all others have.

  Only \<^verbatim>\<open>submitCards\<close> compares the two numbers; \<^verbatim>\<open>disconnect\<close> does not. With four
  members and czar \<^verbatim>\<open>s2\<close>, once \<^verbatim>\<open>s1\<close> and \<^verbatim>\<open>s3\<close> have submitted and \<^verbatim>\<open>s4\<close> leaves, the
  two members who are not the czar have both submitted, there are two submissions, and the
  session is still in \<^verbatim>\<open>playing\<close>. Every member is then the czar or has submitted, so
  no further \<^verbatim>\<open>submitCards\<close> is accepted (\<open>submitCards_all_done_ignored\<close>).
\<close>

theorem disconnect_leaves_complete_round_in_playing:
  "map_option view (lobbyAfter (fourStarted @
        [SubmitCards ''s1'' ''ABCDE'' (Some [''w_0'']),
         SubmitCards ''s3'' ''ABCDE'' (Some [''w_12''])]))
     = Some (playing, [''s1'', ''s2'', ''s3'', ''s4''], Some ''s2'', 2)
   \<and> map_option
        (\<lambda>l. (view l, map pid (nonCzars l), map playerId (roundSubmissions l),
              list_all (\<lambda>p. Some (pid p) = czarId l \<or> submittedCards p \<noteq> None) (players l)))
        (lobbyAfter (fourStarted @
          [SubmitCards ''s1'' ''ABCDE'' (Some [''w_0'']),
           SubmitCards ''s3'' ''ABCDE'' (Some [''w_12'']),
           Disconnect ''s4'']))
     = Some ((playing, [''s1'', ''s2'', ''s3''], Some ''s2'', 2), [''s1'', ''s3''], [''s1'', ''s3''],
             True)"
  by code_simp

section \<open>Judging\<close>

lemma length_updateFirst: "length (updateFirst P f xs) = length xs"
  by (induction xs) auto

lemma find_updateFirst_same:
  "(\<And>x. P x \<Longrightarrow> P (f x)) \<Longrightarrow> find P (updateFirst P f xs) = map_option f (find P xs)"
  by (induction xs) auto

lemma selectWinner_scores:
  assumes lobby: "getLobby w c = Some l"
    and state: "gameState l = judging"
    and sender: "getLobbyPlayer l sid \<noteq> None" "czarId l = Some sid"
    and sub: "find (\<lambda>s. playerId s = winningPlayerId) (roundSubmissions l) = Some s"
    and member: "getLobbyPlayer l winningPlayerId = Some p"
    and prompt: "currentBlackCard l = Some b"
  shows "\<exists>w' out l'. selectWinner sid c winningPlayerId w = Inr (w', out)
       \<and> getLobby w' c = Some l'
       \<and> map_option score (getLobbyPlayer l' winningPlayerId) = Some (score p + 1)
       \<and> whiteDiscard l' = whiteDiscard l @ concat (map cards (roundSubmissions l))
       \<and> roundWinnerInfo l' = Some \<lparr>winnerName = name p, winningCardsText = map wtext (cards s),
                                      blackCardText = btext b\<rparr>
       \<and> gameState l' = (if score p + 1 \<ge> scoreToWin (settings l) then gameOver else roundOver)"
proof -
  from sender(1) obtain cz where cz: "getLobbyPlayer l sid = Some cz" by auto
  then have "pid cz = sid" by (auto simp add: getLobbyPlayer_def find_Some_iff)
  moreover have "find (\<lambda>q. pid q = winningPlayerId)
          (updateFirst (\<lambda>q. pid q = winningPlayerId) (\<lambda>q. q\<lparr>score := score q + 1\<rparr>) (players l))
        = Some (p\<lparr>score := score p + 1\<rparr>)"
    using member by (simp add: find_updateFirst_same getLobbyPlayer_def)
  ultimately show ?thesis
    using lobby state sender(2) sub member prompt cz
    by (simp add: selectWinner_def Let_def getLobby_putLobby getLobby_timers getLobbyPlayer_def)
qed

text \<open>
  Claim C3: every accepted \<^verbatim>\<open>selectWinner\<close> (state \<^verbatim>\<open>judging\<close>, sent by the czar, a
  submission of \<^verbatim>\<open>winningPlayerId\<close> exists) adds one to the winner's score, discards the
  round's cards, records the winner and moves to \<^verbatim>\<open>gameOver\<close> or \<^verbatim>\<open>roundOver\<close>.

  \<open>selectWinner_scores\<close> is this statement for a winner who is still in the roster. For a
  winner who has left it the handler does none of it: after all three members have
  submitted and \<^verbatim>\<open>s3\<close> has disconnected, the session is in \<^verbatim>\<open>judging\<close>, the czar is
  \<^verbatim>\<open>s2\<close>, the submission of \<^verbatim>\<open>s3\<close> is in the list, and \<^verbatim>\<open>selectWinner\<close> for it throws.
\<close>

theorem selectWinner_scores_nobody_for_departed_winner:
  "(case worldAfter (allSubmitted @ [Disconnect ''s3'']) of
      None \<Rightarrow> None
    | Some w \<Rightarrow>
        Some (map_option gameState (getLobby w ''ABCDE''),
              map_option czarId (getLobby w ''ABCDE''),
              map_option (\<lambda>l. map_option cards
                             (find (\<lambda>sub. playerId sub = ''s3'') (roundSubmissions l)))
                (getLobby w ''ABCDE''),
              thrown (handle (SelectWinner ''s2'' ''ABCDE'' ''s3'') w)))
    = Some (Some judging, Some (Some ''s2''), Some (Some [\<lparr>wid = ''w_12'', wtext = ''12''\<rparr>]),
            Some TypeError)"
  by code_simp

text \<open>
  Claim C10: whenever \<^verbatim>\<open>selectWinner\<close> is accepted, the player named by
  \<^verbatim>\<open>winningPlayerId\<close> is still in the roster, so the handler never dereferences a missing
  player, also when a member disconnects during \<^verbatim>\<open>judging\<close> after submitting.

  \<^verbatim>\<open>disconnect\<close> removes the member from the roster and leaves the submission in
  \<^verbatim>\<open>roundSubmissions\<close>. With four members the game goes on with three; the czar can
  pick the submission of the member who left, \<^verbatim>\<open>getLobbyPlayer\<close> finds nobody, and
  \<^verbatim>\<open>winner.score++\<close> throws.
\<close>

theorem selectWinner_throws_for_departed_winner:
  "map_option (\<lambda>l. (view l, map playerId (roundSubmissions l)))
       (lobbyAfter (allSubmitted @ [Disconnect ''s3'']))
     = Some ((judging, [''s1'', ''s2'', ''s4''], Some ''s2'', 3), [''s3'', ''s4'', ''s1''])
   \<and> thrown (run (allSubmitted @ [Disconnect ''s3'', SelectWinner ''s2'' ''ABCDE'' ''s3'']) boot)
     = Some TypeError"
  by code_simp

section \<open>The czar of a round\<close>

lemma findIndexFrom_map:
  "(\<And>x. P (f x) = Q x) \<Longrightarrow> findIndexFrom P (map f xs) k = findIndexFrom Q xs k"
  by (induction xs arbitrary: k) auto

lemma findIndexFrom_absent:
  "(\<forall>x \<in> set xs. \<not> P x) \<Longrightarrow> findIndexFrom P xs k = - 1"
  by (induction xs arbitrary: k) auto

lemma drawPrompt_czar: "czarId (fst (drawPrompt r c l k)) = czarId l"
proof -
  let ?l4 = "(case currentBlackCard l of
                  Some b \<Rightarrow> l\<lparr>blackDiscard := blackDiscard l @ [b]\<rparr>
                | None \<Rightarrow> l)"
  let ?l5 = "(case pop (blackDeck ?l4) of
                  (b, rest) \<Rightarrow> ?l4\<lparr>currentBlackCard := b, blackDeck := rest\<rparr>)"
  have "fst (drawPrompt r c l k) = fst (replenishHands r ?l5 k)"
    by (simp add: drawPrompt_def Let_def split: prod.splits)
  moreover have "sameBlack ?l5 (fst (replenishHands r ?l5 k))" by (rule replenishHands_frame)
  moreover have "czarId ?l5 = czarId l"
    by (simp add: pop_def split: option.splits)
  ultimately show ?thesis by (simp add: sameBlack_def)
qed

lemma nextRound_czar:
  assumes "nextRound r c l k = Inr (l', k', out)"
  shows "czarId l' = Some (pid (players l !
           nat ((findIndex (\<lambda>p. Some (pid p) = czarId l) (players l) + 1)
                  mod int (length (players l)))))"
proof -
  let ?ps = "map (\<lambda>p. p\<lparr>submittedCards := None\<rparr>) (players l)"
  let ?l1 = "l\<lparr>gameState := playing, roundSubmissions := [], roundWinnerInfo := None,
                  players := ?ps\<rparr>"
  let ?i = "nat ((findIndex (\<lambda>p. Some (pid p) = czarId l) (players l) + 1) mod int (length (players l)))"
  let ?l2 = "?l1\<lparr>czarId := Some (pid (players ?l1 ! nat ((findIndex (\<lambda>p. Some (pid p) = czarId ?l1) (players ?l1) + 1) mod int (length (players ?l1)))))\<rparr>"
  let ?l3 = "fst (reshuffleBlack r ?l2 k)"
  let ?k3 = "snd (reshuffleBlack r ?l2 k)"
  from assms have ne: "players l \<noteq> []" by (auto simp add: nextRound_def Let_def split: if_splits)
  have fi: "findIndex (\<lambda>p. Some (pid p) = czarId ?l1) (players ?l1)
          = findIndex (\<lambda>p. Some (pid p) = czarId l) (players l)"
    by (simp add: findIndex_def findIndexFrom_map)
  have "?i < length (players l)" using ne by (simp add: nat_less_iff)
  then have "pid (?ps ! ?i) = pid (players l ! ?i)" by simp
  with fi have c2: "czarId ?l2 = Some (pid (players l ! ?i))" by simp
  from assms consider
      (over) "l' = ?l2\<lparr>gameState := gameOver\<rparr>"
    | (reshuffled) "l' = fst (drawPrompt r c ?l3 ?k3)"
    | (plain) "l' = fst (drawPrompt r c ?l2 k)"
    by (auto simp add: nextRound_def Let_def split: if_splits prod.splits)
  then show ?thesis
  proof cases
    case over
    with c2 show ?thesis by simp
  next
    case reshuffled
    have "czarId ?l3 = czarId ?l2" by (simp add: reshuffleBlack_def split: prod.splits)
    with reshuffled c2 show ?thesis by (simp only: drawPrompt_czar)
  next
    case plain
    with c2 show ?thesis by (simp only: drawPrompt_czar)
  qed
qed

text \<open>The czar that \<^verbatim>\<open>startGame\<close> designates is passed over, and a czar who is no longer
  in the roster is followed by the first member.\<close>

lemma nextRound_after_first_member:
  assumes "nextRound r c l k = Inr (l', k', out)"
    and "czarId l = Some (pid (players l ! 0))" and "length (players l) \<ge> 2"
  shows "czarId l' = Some (pid (players l ! 1))"
proof -
  from assms(3) obtain p ps where ps: "players l = p # ps" by (cases "players l") auto
  with assms(2) have "findIndex (\<lambda>q. Some (pid q) = czarId l) (players l) = 0"
    by (simp add: findIndex_def)
  with nextRound_czar[OF assms(1)] assms(3) show ?thesis by (simp add: nat_mod_distrib)
qed

lemma nextRound_after_departed_czar:
  assumes "nextRound r c l k = Inr (l', k', out)"
    and "\<forall>p \<in> set (players l). Some (pid p) \<noteq> czarId l"
  shows "czarId l' = Some (pid (players l ! 0))"
proof -
  from assms(2) have "findIndex (\<lambda>q. Some (pid q) = czarId l) (players l) = - 1"
    by (simp add: findIndex_def findIndexFrom_absent)
  with nextRound_czar[OF assms(1)] show ?thesis by simp
qed

lemma putLobby_fields:
  "rnd (putLobby c l w) = rnd w" "calls (putLobby c l w) = calls w"
  by (simp_all add: putLobby_def)

lemma dealOne_pids: "map pid (players (dealOne l i)) = map pid (players l)"
  by (cases "i < length (players l)")
     (simp_all add: dealOne_def pop_def map_update list_update_same_conv list_update_beyond)

lemma dealWhiteCards_pids:
  "map pid (players (fst (dealWhiteCards r l i n k))) = map pid (players l)"
proof (induction n arbitrary: l k)
  case 0
  show ?case by simp
next
  case (Suc n)
  show ?case
  proof (cases "length (whiteDeck l) = 0")
    case False
    then have "dealWhiteCards r l i (Suc n) k = dealWhiteCards r (dealOne l i) i n k" by simp
    with Suc.IH[of "dealOne l i" k] show ?thesis by (simp add: dealOne_pids)
  next
    case True
    show ?thesis
    proof (cases "length (whiteDiscard l) = 0")
      case True
      with \<open>length (whiteDeck l) = 0\<close> show ?thesis by simp
    next
      case False
      obtain l' k' where rs: "reshuffleWhite r l k = (l', k')" by (cases "reshuffleWhite r l k")
      with True False have
        "dealWhiteCards r l i (Suc n) k = dealWhiteCards r (dealOne l' i) i n k'" by simp
      moreover from rs have "players l' = players l"
        using reshuffleWhite_frame(6)[of r l k] by simp
      ultimately show ?thesis
        using Suc.IH[of "dealOne l' i" k'] by (simp add: dealOne_pids)
    qed
  qed
qed

lemma initialDealStep_pids:
  "map pid (players (fst (initialDealStep r i s))) = map pid (players (fst s))"
proof -
  obtain l k out where s: "s = (l, k, out)" by (cases s)
  let ?l0 = "l\<lparr>players := (players l)[i := (players l ! i)\<lparr>score := 0, hand := []\<rparr>]\<rparr>"
  have "fst (initialDealStep r i s) = fst (dealWhiteCards r ?l0 i (nat MAX_HAND_SIZE) k)"
    by (simp add: s initialDealStep_def Let_def split: prod.splits)
  moreover have "map pid (players ?l0) = map pid (players l)"
    by (cases "i < length (players l)")
       (simp_all add: map_update list_update_same_conv list_update_beyond)
  ultimately show ?thesis by (simp add: s dealWhiteCards_pids)
qed

lemma initialDeal_pids:
  "map pid (players (fst (fold (initialDealStep r) is (l, k, out)))) = map pid (players l)"
proof (rule fold_preserves[where Q = "\<lambda>s. map pid (players (fst s)) = map pid (players l)"])
  fix x and s :: "lobby \<times> nat \<times> emit list"
  assume "map pid (players (fst s)) = map pid (players l)"
  then show "map pid (players (fst (initialDealStep r x s))) = map pid (players l)"
    by (simp add: initialDealStep_pids)
next
  show "map pid (players (fst (l, k, out))) = map pid (players l)" by simp
qed

text \<open>Whatever the catalogue and the random source: the round that \<^verbatim>\<open>startGame\<close> starts
  is judged by the second member of the roster.\<close>

lemma startGame_czar:
  assumes "startGame sid c w = Inr (w', out)"
    and "getLobby w c = Some l" and "hostId l = sid" and "gameState l = waiting"
    and "length (players l) \<ge> 3" and "getLobby w' c = Some l'"
  shows "czarId l' = Some (pid (players l ! 1))"
proof -
  obtain gw gb where gp: "getPacks (deck w) (selectedPackIndexes (settings l)) = (gw, gb)"
    by (cases "getPacks (deck w) (selectedPackIndexes (settings l))")
  obtain wd k1 where s1: "shuffleArray (rnd w) gw (calls w) = (wd, k1)"
    by (cases "shuffleArray (rnd w) gw (calls w)")
  obtain bd k2 where s2: "shuffleArray (rnd w) gb k1 = (bd, k2)"
    by (cases "shuffleArray (rnd w) gb k1")
  define l1 where "l1 = l\<lparr>whiteDeck := wd, blackDeck := bd, whiteDiscard := [], blackDiscard := []\<rparr>"
  obtain l2 k3 out2 where fd:
    "fold (initialDealStep (rnd w)) [0..<length (players l1)] (l1, k2, []) = (l2, k3, out2)"
    by (cases "fold (initialDealStep (rnd w)) [0..<length (players l1)] (l1, k2, [])")
  define l3 where "l3 = l2\<lparr>czarId := Some (pid (players l2 ! 0))\<rparr>"
  from initialDeal_pids[of "rnd w" "[0..<length (players l1)]" l1 k2 "[]"] fd
  have pids: "map pid (players l2) = map pid (players l)" by (simp add: l1_def)
  then have len: "length (players l2) = length (players l)" by (metis length_map)
  from assms(1,2,3,4,5) gp s1 s2 fd obtain out' where
    sn: "startNextRound c ((putLobby c l3 w)\<lparr>calls := k3\<rparr>) = Inr (w', out')"
    by (auto simp add: startGame_def Let_def l1_def l3_def split: sum.splits)
  then obtain l4 k4 where nr: "nextRound (rnd w) c l3 k3 = Inr (l4, k4, out')"
    and w': "w' = (putLobby c l4 ((putLobby c l3 w)\<lparr>calls := k3\<rparr>))\<lparr>calls := k4\<rparr>"
    by (auto simp add: startNextRound_def getLobby_calls getLobby_putLobby putLobby_fields
             split: sum.splits)
  from w' assms(6) have "l' = l4" by (simp add: getLobby_calls getLobby_putLobby)
  moreover have "czarId l3 = Some (pid (players l3 ! 0))" by (simp add: l3_def)
  moreover have "length (players l3) \<ge> 2" using len assms(5) by (simp add: l3_def)
  ultimately have "czarId l' = Some (pid (players l3 ! 1))"
    using nextRound_after_first_member[OF nr] by simp
  moreover have "pid (players l3 ! 1) = pid (players l ! 1)"
  proof -
    have "pid (players l2 ! 1) = map pid (players l2) ! 1" using len assms(5) by simp
    also have "\<dots> = map pid (players l) ! 1" by (simp add: pids)
    also have "\<dots> = pid (players l ! 1)" using assms(5) by simp
    finally show ?thesis by (simp add: l3_def)
  qed
  ultimately show ?thesis by simp
qed

text \<open>Whatever the roster: when the czar leaves a running game and no remaining member has
  the czar's connection id, the new round is judged by the first remaining member.\<close>

lemma czar_disconnect_czar:
  assumes "removeMember sid c l w = Inr (w', out)"
    and "czarId l = Some sid" and "gameState l \<noteq> waiting" and "gameState l \<noteq> gameOver"
    and "rest = take (nat (findIndex (\<lambda>p. pid p = sid) (players l))) (players l)
                @ drop (Suc (nat (findIndex (\<lambda>p. pid p = sid) (players l)))) (players l)"
    and "rest \<noteq> []" and "\<forall>p \<in> set rest. pid p \<noteq> sid"
    and "getLobby w' c = Some l'"
  shows "czarId l' = Some (pid (rest ! 0))"
proof -
  define l1 where "l1 = l\<lparr>players := rest\<rparr>"
  define l2 where "l2 = (if hostId l1 = sid then l1\<lparr>hostId := pid (players l1 ! 0)\<rparr> else l1)"
  have l2: "gameState l2 = gameState l" "czarId l2 = Some sid" "players l2 = rest"
    by (simp_all add: l2_def l1_def assms(2))
  from assms(1,6) obtain nm where "recoverRound sid c nm l2 w = Inr (w', out)"
    unfolding removeMember_def Let_def assms(5)[symmetric] l1_def[symmetric] l2_def[symmetric]
    by (auto simp add: l1_def split: if_splits)
  with l2 assms(3,4) obtain out' where
    sn: "startNextRound c (putLobby c l2 w) = Inr (w', out')"
    by (auto simp add: recoverRound_def Let_def split: sum.splits)
  then obtain l4 k4 where nr: "nextRound (rnd w) c l2 (calls w) = Inr (l4, k4, out')"
    and w': "w' = (putLobby c l4 (putLobby c l2 w))\<lparr>calls := k4\<rparr>"
    by (auto simp add: startNextRound_def getLobby_putLobby putLobby_fields split: sum.splits)
  from w' assms(8) have "l' = l4" by (simp add: getLobby_calls getLobby_putLobby)
  moreover have "\<forall>p \<in> set (players l2). Some (pid p) \<noteq> czarId l2"
    using l2 assms(7) by simp
  ultimately show ?thesis using nextRound_after_departed_czar[OF nr] l2 by simp
qed

text \<open>
  Claim C4: when the host starts the game with at least three members, the czar of the
  first \<^verbatim>\<open>playing\<close> round is the first member in roster order.

  \<^verbatim>\<open>startGame\<close> sets \<^verbatim>\<open>czarId\<close> to the first member and then calls
  \<^verbatim>\<open>startNextRound\<close>, which advances the czar by one before the round is played
  (\<open>startGame_czar\<close>, for every roster, catalogue and random source). With the roster
  \<^verbatim>\<open>s1, s2, s3\<close> the first round is judged by \<^verbatim>\<open>s2\<close>.
\<close>

theorem startGame_first_czar_is_second_member:
  "map_option view (lobbyAfter threeStarted)
     = Some (playing, [''s1'', ''s2'', ''s3''], Some ''s2'', 0)"
  by code_simp

text \<open>
  Claim C7: when the czar disconnects in mid-game, the new round's czar is the next
  remaining member in roster order after the departed czar.

  \<^verbatim>\<open>disconnect\<close> removes the czar from the roster before \<^verbatim>\<open>startNextRound\<close> looks the
  czar up, so the lookup gives \<open>-1\<close> and the new czar is the first member of the roster
  (\<open>czar_disconnect_czar\<close>). With the roster \<^verbatim>\<open>s1, s2, s3, s4\<close> and czar \<^verbatim>\<open>s2\<close>, the member after the czar is
  \<^verbatim>\<open>s3\<close>; the round that starts when \<^verbatim>\<open>s2\<close> leaves is judged by \<^verbatim>\<open>s1\<close>.
\<close>

theorem czar_disconnect_restarts_at_first_member:
  "map_option view (lobbyAfter fourStarted)
     = Some (playing, [''s1'', ''s2'', ''s3'', ''s4''], Some ''s2'', 0)
   \<and> map_option view (lobbyAfter (fourStarted @ [Disconnect ''s2'']))
     = Some (playing, [''s1'', ''s3'', ''s4''], Some ''s1'', 0)"
  by code_simp

section \<open>Submitted cards of a round that is abandoned\<close>

text \<open>
  Claim C5: the white cards of every submission reach the white discard pile whatever the
  outcome of the round, also when the round ends with no winner chosen, so no white card is
  lost from the draw pile, the discard pile, the hands and the pending submissions.

  \<^verbatim>\<open>selectWinner\<close> discards the submitted cards; \<^verbatim>\<open>startNextRound\<close> empties
  \<^verbatim>\<open>roundSubmissions\<close> and every \<^verbatim>\<open>submittedCards\<close> and discards nothing. The card
  \<^verbatim>\<open>w_0\<close> that \<^verbatim>\<open>s1\<close> submitted is in the lobby before the czar disconnects, or the host
  forces the next round, and nowhere in it afterwards.
\<close>

theorem abandoned_round_loses_submitted_card:
  "map_option (\<lambda>l. (gameState l, holdsCard l ''w_0''))
       (lobbyAfter (fourStarted @ [SubmitCards ''s1'' ''ABCDE'' (Some [''w_0''])]))
     = Some (playing, True)
   \<and> map_option (\<lambda>l. (gameState l, holdsCard l ''w_0''))
       (lobbyAfter (fourStarted @ [SubmitCards ''s1'' ''ABCDE'' (Some [''w_0'']), Disconnect ''s2'']))
     = Some (playing, False)
   \<and> map_option (\<lambda>l. (gameState l, holdsCard l ''w_0''))
       (lobbyAfter (fourStarted @ [SubmitCards ''s1'' ''ABCDE'' (Some [''w_0'']),
                                   RequestNextRound ''s1'' ''ABCDE'']))
     = Some (playing, False)"
  by code_simp

section \<open>The timer after a round\<close>




text \<open>The callback of the older copy tests only \<^verbatim>\<open>gameState !== 'gameOver'\<close>. There the
  timer does change a session that is in \<^verbatim>\<open>playing\<close>: after the round is won the host
  forces the next round, whose czar is \<^verbatim>\<open>s3\<close>, and \<^verbatim>\<open>s1\<close> submits \<^verbatim>\<open>w_31\<close>; the stale
  timer then starts yet another round, the czar is \<^verbatim>\<open>s1\<close>, and the submission is gone and
  the card with it.\<close>

theorem stale_timer_restarts_round_in_older_copy:
  "map_option view (lobbyAfter roundWon)
     = Some (roundOver, [''s1'', ''s2'', ''s3''], Some ''s2'', 2)
   \<and> map_option timers (worldAfter roundWon) = Some [''ABCDE'']
   \<and> map_option (\<lambda>l. (view l, holdsCard l ''w_31''))
        (lobbyAfter (roundWon @ [RequestNextRound ''s1'' ''ABCDE'',
                                 SubmitCards ''s1'' ''ABCDE'' (Some [''w_31''])]))
      = Some ((playing, [''s1'', ''s2'', ''s3''], Some ''s3'', 1), True)
   \<and> (case worldAfter (roundWon @ [RequestNextRound ''s1'' ''ABCDE'',
                                    SubmitCards ''s1'' ''ABCDE'' (Some [''w_31''])]) of
        None \<Rightarrow> None
      | Some w \<Rightarrow>
          (case fireTimer_part_000 w of
             Inl e \<Rightarrow> None
           | Inr (w', out) \<Rightarrow>
               map_option (\<lambda>l. (view l, holdsCard l ''w_31'')) (getLobby w' ''ABCDE'')))
      = Some ((playing, [''s1'', ''s2'', ''s3''], Some ''s1'', 0), False)"
  by code_simp

section \<open>The prompt of a running session\<close>

lemma nextRound_prompt:
  assumes "nextRound r c l k = Inr (l', k', out)"
  shows "promptPresent l'"
proof -
  let ?l1 = "l\<lparr>gameState := playing, roundSubmissions := [], roundWinnerInfo := None,
                  players := map (\<lambda>p. p\<lparr>submittedCards := None\<rparr>) (players l)\<rparr>"
  let ?l2 = "?l1\<lparr>czarId := Some (pid (players ?l1 ! nat ((findIndex (\<lambda>p. Some (pid p) = czarId ?l1) (players ?l1) + 1) mod int (length (players ?l1)))))\<rparr>"
  let ?l3 = "fst (reshuffleBlack r ?l2 k)"
  let ?k3 = "snd (reshuffleBlack r ?l2 k)"
  from assms consider
      (over) "l' = ?l2\<lparr>gameState := gameOver\<rparr>"
    | (reshuffled) "blackDiscard l \<noteq> []" "l' = fst (drawPrompt r c ?l3 ?k3)"
    | (plain) "blackDeck l \<noteq> []" "l' = fst (drawPrompt r c ?l2 k)"
    by (auto simp add: nextRound_def Let_def split: if_splits prod.splits)
  then show ?thesis
  proof cases
    case over
    then show ?thesis by (simp add: promptPresent_def)
  next
    case reshuffled
    have "length (blackDeck ?l3) = length (blackDiscard ?l2)"
      by (cases "shuffleArray r (blackDiscard ?l2) k")
         (auto simp add: reshuffleBlack_def dest: shuffleArray_length_pair)
    with reshuffled(1) have "blackDeck ?l3 \<noteq> []" by auto
    from drawPrompt_black[OF this, of r c ?k3] reshuffled(2) show ?thesis
      by (simp add: promptPresent_def)
  next
    case plain
    then have "blackDeck ?l2 \<noteq> []" by simp
    from drawPrompt_black[OF this, of r c k] plain(2) show ?thesis
      by (simp add: promptPresent_def)
  qed
qed

lemma startNextRound_prompt:
  assumes "\<And>c l. getLobby w c = Some l \<Longrightarrow> promptPresent l"
    and "startNextRound c1 w = Inr (w', out)" and "getLobby w' c = Some l'"
  shows "promptPresent l'"
proof (cases "getLobby w c1")
  case None
  with assms show ?thesis by (simp add: startNextRound_def)
next
  case (Some l1)
  with assms(2) obtain l2 k2 where nr: "nextRound (rnd w) c1 l1 (calls w) = Inr (l2, k2, out)"
    and w': "w' = (putLobby c1 l2 w)\<lparr>calls := k2\<rparr>"
    by (auto simp add: startNextRound_def split: sum.splits)
  show ?thesis
  proof (cases "c = c1")
    case True
    with w' assms(3) have "l' = l2" by (simp add: getLobby_calls getLobby_putLobby)
    with nextRound_prompt[OF nr] show ?thesis by simp
  next
    case False
    with w' assms(3) have "getLobby w c = Some l'" by (simp add: getLobby_calls getLobby_putLobby)
    then show ?thesis by (rule assms(1))
  qed
qed

lemma putLobby_prompt:
  assumes "\<And>c l. getLobby w c = Some l \<Longrightarrow> promptPresent l" and "promptPresent l1"
    and "getLobby (putLobby c1 l1 w) c = Some l'"
  shows "promptPresent l'"
  using assms by (auto simp add: getLobby_putLobby split: if_splits)

lemma handle_keeps_prompt:
  assumes inv: "\<And>c l. getLobby w c = Some l \<Longrightarrow> promptPresent l"
    and h: "handle e w = Inr (w', out)" and l': "getLobby w' c = Some l'"
  shows "promptPresent l'"
proof (cases e)
  case (CreateLobby sid nm st)
  with h l' have "gameState l' = waiting \<or> getLobby w c = Some l'"
    by (auto simp add: createLobby_def Let_def getLobby_putLobby getLobby_calls
             split: option.splits if_splits)
  with inv show ?thesis by (auto simp add: promptPresent_def)
next
  case (JoinLobby sid c1 nm)
  with h l' inv[of c1] inv[of c] show ?thesis
    by (auto simp add: joinLobby_def Let_def getLobby_putLobby promptPresent_def
             split: option.splits if_splits)
next
  case (UpdateSettings sid c1 st)
  with h l' inv[of c1] inv[of c] show ?thesis
    by (auto simp add: updateSettings_def Let_def getLobby_putLobby promptPresent_def
             split: option.splits if_splits)
next
  case (StartGame sid c1)
  with h consider "w' = w"
    | l3 k3 out' where "getLobby w c1 \<noteq> None"
        "startNextRound c1 ((putLobby c1 l3 w)\<lparr>calls := k3\<rparr>) = Inr (w', out')"
    by (auto simp add: startGame_def Let_def split: option.splits if_splits prod.splits sum.splits)
  then show ?thesis
  proof cases
    case 1
    with l' inv show ?thesis by simp
  next
    case 2
    from 2(2) obtain l4 k4 where nr: "nextRound (rnd w) c1 l3 k3 = Inr (l4, k4, out')"
      and w': "w' = (putLobby c1 l4 ((putLobby c1 l3 w)\<lparr>calls := k3\<rparr>))\<lparr>calls := k4\<rparr>"
      by (auto simp add: startNextRound_def getLobby_calls getLobby_putLobby putLobby_fields
               split: sum.splits)
    show ?thesis
    proof (cases "c = c1")
      case True
      with w' l' have "l' = l4" by (simp add: getLobby_calls getLobby_putLobby)
      with nextRound_prompt[OF nr] show ?thesis by simp
    next
      case False
      with w' l' have "getLobby w c = Some l'" by (simp add: getLobby_calls getLobby_putLobby)
      then show ?thesis by (rule inv)
    qed
  qed
next
  case (SubmitCards sid c1 ids)
  with h l' inv[of c1] inv[of c] show ?thesis
    by (auto simp add: submitCards_def Let_def getLobby_putLobby getLobby_calls promptPresent_def
             split: option.splits if_splits prod.splits)
next
  case (SelectWinner sid c1 wp)
  with h l' inv[of c1] inv[of c] show ?thesis
    by (auto simp add: selectWinner_def Let_def getLobby_putLobby getLobby_timers promptPresent_def
             split: option.splits if_splits prod.splits)
next
  case (RequestNextRound sid c1)
  with h have "w' = w \<or> startNextRound c1 w = Inr (w', out)"
    by (auto simp add: requestNextRound_def split: option.splits if_splits)
  with l' inv startNextRound_prompt[of w c1 w' out c l'] show ?thesis by auto
next
  case (Disconnect sid)
  with h consider "w' = w"
    | c1 l0 where "getLobby w c1 = Some l0" "removeMember sid c1 l0 w = Inr (w', out)"
    by (auto simp add: disconnect_def split: option.splits)
  then show ?thesis
  proof cases
    case 1
    with l' inv show ?thesis by simp
  next
    case 2
    define l1 where "l1 = l0\<lparr>players := take (nat (findIndex (\<lambda>p. pid p = sid) (players l0))) (players l0)
                 @ drop (Suc (nat (findIndex (\<lambda>p. pid p = sid) (players l0)))) (players l0)\<rparr>"
    define l2 where "l2 = (if hostId l1 = sid then l1\<lparr>hostId := pid (players l1 ! 0)\<rparr> else l1)"
    define w2 where "w2 = putLobby c1 l2 w"
    have "promptPresent l2" using inv[OF 2(1)] by (simp add: promptPresent_def l2_def l1_def)
    then have inv2: "\<And>c l. getLobby w2 c = Some l \<Longrightarrow> promptPresent l"
      using inv by (auto simp add: w2_def getLobby_putLobby split: if_splits)
    from 2(2) consider
        (gone) "w' = deleteLobby c1 w"
      | (rest) nm where "recoverRound sid c1 nm l2 w = Inr (w', out)"
      unfolding removeMember_def Let_def l1_def[symmetric] l2_def[symmetric]
      by (auto split: if_splits)
    then show ?thesis
    proof cases
      case gone
      with l' inv show ?thesis by (auto simp add: getLobby_deleteLobby split: if_splits)
    next
      case rest
      then consider
          (czar) out' where "startNextRound c1 w2 = Inr (w', out')"
        | (few) "w' = putLobby c1 (l2\<lparr>gameState := gameOver\<rparr>) w2"
        | (stay) "w' = w2"
        unfolding recoverRound_def Let_def w2_def[symmetric]
        by (auto split: if_splits sum.splits)
      then show ?thesis
      proof cases
        case czar
        from startNextRound_prompt[OF inv2 czar l'] show ?thesis .
      next
        case few
        with l' inv2 show ?thesis
          by (auto simp add: getLobby_putLobby promptPresent_def split: if_splits)
      next
        case stay
        with l' inv2 show ?thesis by simp
      qed
    qed
  qed
next
  case Timeout
  show ?thesis
  proof (cases "timers w")
    case Nil
    with Timeout h l' inv show ?thesis by auto
  next
    case (Cons c1 cs)
    let ?w = "w\<lparr>timers := cs\<rparr>"
    have inv': "\<And>c l. getLobby ?w c = Some l \<Longrightarrow> promptPresent l"
      using inv by (simp add: getLobby_timers)
    from Cons Timeout h have "autoAdvance c1 ?w = Inr (w', out)" by simp
    then have "w' = ?w \<or> startNextRound c1 ?w = Inr (w', out)"
      by (auto simp add: autoAdvance_def split: option.splits if_splits)
    with l' inv' startNextRound_prompt[of ?w c1 w' out c l'] show ?thesis by auto
  qed
qed

text \<open>In every state the server can reach from an empty registry, a session that is being
  played, judged or between rounds has a prompt.\<close>

lemma reachable_prompt:
  "reachable w \<Longrightarrow> getLobby w c = Some l \<Longrightarrow> promptPresent l"
proof (induction arbitrary: c l rule: reachable.induct)
  case (fresh w)
  then show ?case by (simp add: getLobby_def)
next
  case (step w e w' out)
  from handle_keeps_prompt[OF step.IH step.hyps(2) step.prems] show ?case .
qed

section \<open>The state machine, event by event\<close>

lemma startNextRound_cases:
  assumes "startNextRound c1 w = Inr (w', out)" and "getLobby w' c = Some l'"
  shows "(c \<noteq> c1 \<and> getLobby w c = Some l')
     \<or> (c = c1 \<and> getLobby w c \<noteq> None \<and> (gameState l' = playing \<or> gameState l' = gameOver))"
proof (cases "getLobby w c1")
  case None
  with assms show ?thesis by (auto simp add: startNextRound_def)
next
  case (Some l1)
  with assms(1) obtain l2 k2 where nr: "nextRound (rnd w) c1 l1 (calls w) = Inr (l2, k2, out)"
    and w': "w' = (putLobby c1 l2 w)\<lparr>calls := k2\<rparr>"
    by (auto simp add: startNextRound_def split: sum.splits)
  show ?thesis
  proof (cases "c = c1")
    case True
    with w' assms(2) have "l' = l2" by (simp add: getLobby_calls getLobby_putLobby)
    with nextRound_gameState[OF nr] True Some show ?thesis by simp
  next
    case False
    with w' assms(2) show ?thesis by (simp add: getLobby_calls getLobby_putLobby)
  qed
qed

lemma startNextRound_no_black:
  assumes "startNextRound c w = Inr (w', out)" and "getLobby w c = Some l"
    and "blackDeck l = []" and "blackDiscard l = []" and "getLobby w' c = Some l'"
  shows "gameState l' = gameOver"
proof -
  from assms(1,2) obtain l2 k2 where nr: "nextRound (rnd w) c l (calls w) = Inr (l2, k2, out)"
    and w': "w' = (putLobby c l2 w)\<lparr>calls := k2\<rparr>"
    by (auto simp add: startNextRound_def split: sum.splits)
  from w' assms(5) have "l' = l2" by (simp add: getLobby_calls getLobby_putLobby)
  with nextRound_no_black[OF nr assms(3,4)] show ?thesis by simp
qed

lemma removeMember_waiting:
  assumes "removeMember sid c1 l0 w = Inr (w', out)"
    and "getLobby w' c = Some l'" and "gameState l' = waiting"
  shows "(c \<noteq> c1 \<and> getLobby w c = Some l')
     \<or> (c = c1 \<and> gameState l0 = waiting \<and> blackDeck l' = blackDeck l0
          \<and> blackDiscard l' = blackDiscard l0)"
proof -
  define l1 where "l1 = l0\<lparr>players := take (nat (findIndex (\<lambda>p. pid p = sid) (players l0))) (players l0)
                 @ drop (Suc (nat (findIndex (\<lambda>p. pid p = sid) (players l0)))) (players l0)\<rparr>"
  define l2 where "l2 = (if hostId l1 = sid then l1\<lparr>hostId := pid (players l1 ! 0)\<rparr> else l1)"
  define w2 where "w2 = putLobby c1 l2 w"
  have l2: "gameState l2 = gameState l0" "blackDeck l2 = blackDeck l0" "blackDiscard l2 = blackDiscard l0"
    by (simp_all add: l2_def l1_def)
  from assms(1) consider
      (gone) "w' = deleteLobby c1 w"
    | (rest) nm where "recoverRound sid c1 nm l2 w = Inr (w', out)"
    unfolding removeMember_def Let_def l1_def[symmetric] l2_def[symmetric]
    by (auto split: if_splits)
  then show ?thesis
  proof cases
    case gone
    with assms(2) show ?thesis by (auto simp add: getLobby_deleteLobby split: if_splits)
  next
    case rest
    then consider
        (czar) out' where "startNextRound c1 w2 = Inr (w', out')"
      | (few) "w' = putLobby c1 (l2\<lparr>gameState := gameOver\<rparr>) w2"
      | (stay) "w' = w2"
      unfolding recoverRound_def Let_def w2_def[symmetric]
      by (auto split: if_splits sum.splits)
    then show ?thesis
    proof cases
      case czar
      from startNextRound_cases[OF czar assms(2)] assms(3)
      have "getLobby w2 c = Some l'" by auto
      with l2 assms(3) show ?thesis by (auto simp add: w2_def getLobby_putLobby split: if_splits)
    next
      case few
      with assms(2,3) show ?thesis
        by (auto simp add: w2_def getLobby_putLobby split: if_splits)
    next
      case stay
      with assms(2,3) l2 show ?thesis
        by (auto simp add: w2_def getLobby_putLobby split: if_splits)
    qed
  qed
qed

lemma handle_keeps_blackUnset:
  assumes inv: "\<And>c l. getLobby w c = Some l \<Longrightarrow> blackUnset l"
    and h: "handle e w = Inr (w', out)" and l': "getLobby w' c = Some l'"
  shows "blackUnset l'"
proof (cases e)
  case (CreateLobby sid nm st)
  with h l' have "(gameState l' = waiting \<and> blackDeck l' = [] \<and> blackDiscard l' = [])
      \<or> getLobby w c = Some l'"
    by (auto simp add: createLobby_def Let_def getLobby_putLobby getLobby_calls
             split: option.splits if_splits)
  with inv show ?thesis by (auto simp add: blackUnset_def)
next
  case (JoinLobby sid c1 nm)
  with h l' inv[of c1] inv[of c] show ?thesis
    by (auto simp add: joinLobby_def Let_def getLobby_putLobby blackUnset_def
             split: option.splits if_splits)
next
  case (UpdateSettings sid c1 st)
  with h l' inv[of c1] inv[of c] show ?thesis
    by (auto simp add: updateSettings_def Let_def getLobby_putLobby blackUnset_def
             split: option.splits if_splits)
next
  case (StartGame sid c1)
  with h consider "w' = w"
    | l3 k3 out' where "startNextRound c1 ((putLobby c1 l3 w)\<lparr>calls := k3\<rparr>) = Inr (w', out')"
    by (auto simp add: startGame_def Let_def split: option.splits if_splits prod.splits sum.splits)
  then show ?thesis
  proof cases
    case 1
    with l' inv show ?thesis by simp
  next
    case 2
    from startNextRound_cases[OF 2 l'] inv[of c l'] show ?thesis
      by (auto simp add: blackUnset_def getLobby_calls getLobby_putLobby split: if_splits)
  qed
next
  case (SubmitCards sid c1 ids)
  with h l' inv[of c1] inv[of c] show ?thesis
    by (auto simp add: submitCards_def Let_def getLobby_putLobby getLobby_calls blackUnset_def
             split: option.splits if_splits prod.splits)
next
  case (SelectWinner sid c1 wp)
  with h l' inv[of c1] inv[of c] show ?thesis
    by (auto simp add: selectWinner_def Let_def getLobby_putLobby getLobby_timers blackUnset_def
             split: option.splits if_splits prod.splits)
next
  case (RequestNextRound sid c1)
  with h have "w' = w \<or> startNextRound c1 w = Inr (w', out)"
    by (auto simp add: requestNextRound_def split: option.splits if_splits)
  with l' inv[of c l'] startNextRound_cases[of c1 w w' out c l'] show ?thesis
    by (auto simp add: blackUnset_def)
next
  case (Disconnect sid)
  with h consider "w' = w"
    | c1 l0 where "getLobby w c1 = Some l0" "removeMember sid c1 l0 w = Inr (w', out)"
    by (auto simp add: disconnect_def split: option.splits)
  then show ?thesis
  proof cases
    case 1
    with l' inv show ?thesis by simp
  next
    case 2
    show ?thesis
    proof (cases "gameState l' = waiting")
      case False
      then show ?thesis by (simp add: blackUnset_def)
    next
      case True
      from removeMember_waiting[OF 2(2) l' True] inv[of c l'] inv[OF 2(1)] show ?thesis
        by (auto simp add: blackUnset_def)
    qed
  qed
next
  case Timeout
  show ?thesis
  proof (cases "timers w")
    case Nil
    with Timeout h l' inv show ?thesis by auto
  next
    case (Cons c1 cs)
    let ?w = "w\<lparr>timers := cs\<rparr>"
    from Cons Timeout h have "autoAdvance c1 ?w = Inr (w', out)" by simp
    then have "w' = ?w \<or> startNextRound c1 ?w = Inr (w', out)"
      by (auto simp add: autoAdvance_def split: option.splits if_splits)
    with l' inv[of c l'] startNextRound_cases[of c1 ?w w' out c l'] show ?thesis
      by (auto simp add: blackUnset_def getLobby_timers)
  qed
qed

lemma reachable_blackUnset:
  "reachable w \<Longrightarrow> getLobby w c = Some l \<Longrightarrow> blackUnset l"
proof (induction arbitrary: c l rule: reachable.induct)
  case (fresh w)
  then show ?case by (simp add: getLobby_def)
next
  case (step w e w' out)
  from handle_keeps_blackUnset[OF step.IH step.hyps(2) step.prems] show ?case .
qed

lemma startGame_valid:
  assumes "startGame sid c1 w = Inr (w', out)"
    and "getLobby w c = Some l" and "getLobby w' c = Some l'" and "l' \<noteq> l"
  shows "c = c1 \<and> hostId l = sid \<and> 3 \<le> length (players l)"
proof -
  from startGame_effect[OF assms(1,2,3)] assms(4)
  have c: "c = c1" "hostId l = sid" by auto
  have "\<not> length (players l) < 3"
  proof
    assume "length (players l) < 3"
    with assms(1,2) c have "w' = w" by (auto simp add: startGame_def split: if_splits)
    with assms(2,3,4) show False by simp
  qed
  with c show ?thesis by simp
qed

lemma submitCards_its_lobby:
  assumes "submitCards sid c1 ids w = Inr (w', out)"
    and "getLobby w c = Some l" and "getLobby w' c = Some l'" and "l' \<noteq> l"
  shows "c = c1"
  using assms
  by (auto simp add: submitCards_def Let_def getLobby_putLobby getLobby_calls
           split: option.splits if_splits prod.splits)

lemma selectWinner_czar:
  assumes "selectWinner sid c1 wp w = Inr (w', out)"
    and "getLobby w c = Some l" and "getLobby w' c = Some l'" and "l' \<noteq> l"
  shows "c = c1 \<and> czarId l = Some sid"
proof -
  from assms have c: "c = c1"
    by (auto simp add: selectWinner_def Let_def getLobby_putLobby getLobby_timers
           split: option.splits if_splits prod.splits)
  from assms c obtain czar where "getLobbyPlayer l sid = Some czar" "Some (pid czar) = czarId l"
    by (auto simp add: selectWinner_def split: option.splits if_splits)
  then show ?thesis using c by (auto simp add: getLobbyPlayer_def find_Some_iff)
qed

lemma findIndex_single: "findIndex P [x] \<noteq> - 1 \<Longrightarrow> P x"
  by (auto simp add: findIndex_def split: if_splits)

lemma disconnect_removes:
  assumes "disconnect sid w = Inr (w', out)"
    and "getLobby w c = Some l" and "getLobby w' c = None"
  shows "map pid (players l) = [sid]"
proof -
  let ?P = "\<lambda>c. case getLobby w c of
                        None \<Rightarrow> False
                      | Some l \<Rightarrow> findIndex (\<lambda>p. pid p = sid) (players l) \<noteq> - 1"
  from assms obtain c1 l0 where f: "find ?P (map fst (lobbies w)) = Some c1"
    and g: "getLobby w c1 = Some l0" and rm: "removeMember sid c1 l0 w = Inr (w', out)"
    by (auto simp add: disconnect_def split: option.splits)
  from f have "?P c1" by (auto simp add: find_Some_iff)
  with g have idx: "findIndex (\<lambda>p. pid p = sid) (players l0) \<noteq> - 1" by simp
  define l1 where "l1 = l0\<lparr>players := take (nat (findIndex (\<lambda>p. pid p = sid) (players l0))) (players l0)
                 @ drop (Suc (nat (findIndex (\<lambda>p. pid p = sid) (players l0)))) (players l0)\<rparr>"
  define l2 where "l2 = (if hostId l1 = sid then l1\<lparr>hostId := pid (players l1 ! 0)\<rparr> else l1)"
  define w2 where "w2 = putLobby c1 l2 w"
  from rm consider
      (gone) "length (players l1) = 0" "w' = deleteLobby c1 w"
    | (rest) nm where "recoverRound sid c1 nm l2 w = Inr (w', out)"
    unfolding removeMember_def Let_def l1_def[symmetric] l2_def[symmetric]
    by (auto split: if_splits)
  then show ?thesis
  proof cases
    case gone
    with assms(2,3) have c: "c = c1" by (auto simp add: getLobby_deleteLobby split: if_splits)
    with g assms(2) have l: "l = l0" by simp
    from gone(1) have "length (players l0) \<le> 1"
      by (auto simp add: l1_def min_def split: if_splits)
    moreover from idx have "players l0 \<noteq> []" by (auto simp add: findIndex_def)
    ultimately obtain p where p: "players l0 = [p]"
      by (cases "players l0") auto
    with idx have "pid p = sid" by (auto dest: findIndex_single)
    with p l show ?thesis by simp
  next
    case rest
    have g2: "getLobby w2 c \<noteq> None" using assms(2) by (simp add: w2_def getLobby_putLobby)
    from rest consider
        (czar) out' where "startNextRound c1 w2 = Inr (w', out')"
      | (few) "w' = putLobby c1 (l2\<lparr>gameState := gameOver\<rparr>) w2"
      | (stay) "w' = w2"
      unfolding recoverRound_def Let_def w2_def[symmetric]
      by (auto split: if_splits sum.splits)
    then have "getLobby w' c \<noteq> None"
    proof cases
      case czar
      from g2 obtain lx where "getLobby w2 c = Some lx" by auto
      from startNextRound_keeps_lobbies[OF czar this] show ?thesis .
    next
      case few
      with g2 show ?thesis by (simp add: getLobby_putLobby)
    next
      case stay
      with g2 show ?thesis by simp
    qed
    with assms(3) show ?thesis by simp
  qed
qed

lemma requestNextRound_waiting:
  assumes "reachable w" and "requestNextRound sid c1 w = Inr (w', out)"
    and "getLobby w c = Some l" and "getLobby w' c = Some l'"
    and "gameState l = waiting" and "l' \<noteq> l"
  shows "gameState l' = gameOver"
proof -
  from requestNextRound_effect[OF assms(2,3,4)] assms(6) have c: "c = c1" by auto
  from reachable_blackUnset[OF assms(1,3)] assms(5)
  have b: "blackDeck l = []" "blackDiscard l = []" by (simp_all add: blackUnset_def)
  from assms(2,3,4,6) c have "startNextRound c w = Inr (w', out)"
    by (auto simp add: requestNextRound_def split: if_splits)
  from startNextRound_no_black[OF this assms(3) b assms(4)] show ?thesis .
qed

lemma game_state_routes:
  assumes "reachable w" and "handle e w = Inr (w', out)"
    and "getLobby w c = Some l" and "getLobby w' c = Some l'"
  shows "(gameState l = waiting \<and> gameState l' = playing \<longrightarrow>
            e = StartGame (hostId l) c \<and> 3 \<le> length (players l))
     \<and> (gameState l = waiting \<and> gameState l' = gameOver \<longrightarrow>
            (e = StartGame (hostId l) c \<and> 3 \<le> length (players l))
            \<or> e = RequestNextRound (hostId l) c)
     \<and> (gameState l = playing \<and> gameState l' = judging \<longrightarrow>
            (\<exists>sid ids. e = SubmitCards sid c ids)
            \<and> length (roundSubmissions l') = Suc (length (roundSubmissions l))
            \<and> length (roundSubmissions l') = length (nonCzars l'))
     \<and> (gameState l = judging \<and> gameState l' = roundOver \<longrightarrow>
            (\<exists>wp. e = SelectWinner (the (czarId l)) c wp))
     \<and> (gameState l = judging \<and> gameState l' = gameOver \<longrightarrow>
            (\<exists>wp. e = SelectWinner (the (czarId l)) c wp) \<or> (\<exists>sid. e = Disconnect sid)
            \<or> e = RequestNextRound (hostId l) c)"
proof -
  have ne: "gameState l' \<noteq> gameState l \<Longrightarrow> l' \<noteq> l" by auto
  show ?thesis
  proof (cases e)
    case (CreateLobby sid nm st)
    with assms createLobby_effect[of sid nm st w w' out c l] show ?thesis
      by (cases "gameState l") auto
  next
    case (JoinLobby sid c1 nm)
    with assms joinLobby_effect[of sid c1 nm w w' out c l l'] show ?thesis
      by (cases "gameState l") auto
  next
    case (UpdateSettings sid c1 st)
    with assms updateSettings_effect[of sid c1 st w w' out c l l'] show ?thesis
      by (cases "gameState l") auto
  next
    case (StartGame sid c1)
    with assms have h: "startGame sid c1 w = Inr (w', out)" by simp
    from startGame_effect[OF h assms(3,4)] startGame_valid[OF h assms(3,4)] ne StartGame
    show ?thesis by (cases "gameState l") auto
  next
    case (SubmitCards sid c1 ids)
    with assms have h: "submitCards sid c1 ids w = Inr (w', out)" by simp
    show ?thesis
    proof (cases "gameState l = playing \<and> gameState l' = judging")
      case False
      with submitCards_effect[OF h assms(3,4)] show ?thesis by (cases "gameState l") auto
    next
      case True
      then have d: "l' \<noteq> l" by auto
      from submitCards_its_lobby[OF h assms(3,4) d] have c: "c = c1" .
      from submitCards_judging_iff[OF assms(3) h[folded c] assms(4) d] True SubmitCards c
      show ?thesis by simp
    qed
  next
    case (SelectWinner sid c1 wp)
    with assms have h: "selectWinner sid c1 wp w = Inr (w', out)" by simp
    from selectWinner_effect[OF h assms(3,4)] selectWinner_czar[OF h assms(3,4)] ne SelectWinner
    show ?thesis by (cases "gameState l") auto
  next
    case (RequestNextRound sid c1)
    with assms have h: "requestNextRound sid c1 w = Inr (w', out)" by simp
    from requestNextRound_effect[OF h assms(3,4)]
      requestNextRound_waiting[OF assms(1) h assms(3,4)] ne RequestNextRound
    show ?thesis by (cases "gameState l") auto
  next
    case (Disconnect sid)
    with assms disconnect_effect[of sid w w' out c l l'] show ?thesis
      by (cases "gameState l") auto
  next
    case Timeout
    show ?thesis
    proof (cases "timers w")
      case Nil
      with Timeout assms show ?thesis by (cases "gameState l") auto
    next
      case (Cons c1 cs)
      with Timeout assms have a: "autoAdvance c1 (w\<lparr>timers := cs\<rparr>) = Inr (w', out)" by simp
      have "getLobby (w\<lparr>timers := cs\<rparr>) c = Some l" using assms(3) by (simp add: getLobby_timers)
      from autoAdvance_effect[OF a this assms(4)] show ?thesis
        by (cases "gameState l") auto
    qed
  qed
qed

lemma game_state_all:
  assumes "reachable w" and "handle e w = Inr (w', out)"
    and "getLobby w c = Some l" and "getLobby w' c = Some l'"
  shows "mayFollow (gameState l) (gameState l')
          \<and> (gameState l = waiting \<and> gameState l' = playing \<longrightarrow>
               e = StartGame (hostId l) c \<and> 3 \<le> length (players l))
          \<and> (gameState l = waiting \<and> gameState l' = gameOver \<longrightarrow>
               (e = StartGame (hostId l) c \<and> 3 \<le> length (players l))
               \<or> e = RequestNextRound (hostId l) c)
          \<and> (gameState l = playing \<and> gameState l' = judging \<longrightarrow>
               (\<exists>sid ids. e = SubmitCards sid c ids)
               \<and> length (roundSubmissions l') = Suc (length (roundSubmissions l))
               \<and> length (roundSubmissions l') = length (nonCzars l'))
          \<and> (gameState l = judging \<and> gameState l' = roundOver \<longrightarrow>
               (\<exists>wp. e = SelectWinner (the (czarId l)) c wp))
          \<and> (gameState l = judging \<and> gameState l' = gameOver \<longrightarrow>
               (\<exists>wp. e = SelectWinner (the (czarId l)) c wp) \<or> (\<exists>sid. e = Disconnect sid)
               \<or> e = RequestNextRound (hostId l) c)
          \<and> (gameState l = judging \<and> gameState l' = playing \<longrightarrow>
               e = RequestNextRound (hostId l) c \<or> e = Disconnect (the (czarId l)))
          \<and> (gameState l = gameOver \<and> l' \<noteq> l \<longrightarrow> (\<exists>sid. e = Disconnect sid))"
proof -
  note steps = game_state_steps[OF assms(2,3,4)]
  note routes = game_state_routes[OF assms]
  note a = steps[THEN conjunct1]
  note g = steps[THEN conjunct2, THEN conjunct2, THEN conjunct1]
  note h = steps[THEN conjunct2, THEN conjunct2, THEN conjunct2]
  show ?thesis
    apply (rule conjI[OF a])
    apply (rule conjI[OF routes[THEN conjunct1]])
    apply (rule conjI[OF routes[THEN conjunct2, THEN conjunct1]])
    apply (rule conjI[OF routes[THEN conjunct2, THEN conjunct2, THEN conjunct1]])
    apply (rule conjI[OF routes[THEN conjunct2, THEN conjunct2, THEN conjunct2, THEN conjunct1]])
    apply (rule conjI[OF routes[THEN conjunct2, THEN conjunct2, THEN conjunct2, THEN conjunct2]])
    apply (rule conjI[OF g h])
    done
qed

lemma run_reachable: "reachable w \<Longrightarrow> run es w = Inr w' \<Longrightarrow> reachable w'"
proof (induction es arbitrary: w)
  case Nil
  then show ?case by simp
next
  case (Cons e es)
  from Cons.prems(2) obtain w1 out where h: "handle e w = Inr (w1, out)" and r: "run es w1 = Inr w'"
    by (auto split: sum.splits)
  from reachable.step[OF Cons.prems(1) h] have "reachable w1" .
  from Cons.IH[OF this r] show ?case .
qed

text \<open>
  Claim C9: every change of a session's game state follows the five-state machine:
  \<^verbatim>\<open>waiting\<close> only to \<^verbatim>\<open>playing\<close> through a valid \<^verbatim>\<open>startGame\<close>, \<^verbatim>\<open>playing\<close> only to
  \<^verbatim>\<open>judging\<close> (all members but the czar have submitted) or \<^verbatim>\<open>gameOver\<close>, \<^verbatim>\<open>judging\<close>
  only to \<^verbatim>\<open>roundOver\<close> or \<^verbatim>\<open>gameOver\<close> (through winner selection or disconnect),
  \<^verbatim>\<open>roundOver\<close> only to \<^verbatim>\<open>playing\<close> or \<^verbatim>\<open>gameOver\<close>, and nothing but teardown changes a
  session in \<^verbatim>\<open>gameOver\<close>.

  As stated this fails. \<^verbatim>\<open>requestNextRound\<close> is guarded by
  \<^verbatim>\<open>(hostId === socket.id || gameState === 'roundOver') && gameState !== 'gameOver'\<close>, so
  the host may force a new round in any state but \<^verbatim>\<open>gameOver\<close>: from \<^verbatim>\<open>judging\<close> the
  session goes back to \<^verbatim>\<open>playing\<close> with no winner chosen (as it does when the czar
  disconnects), and from \<^verbatim>\<open>waiting\<close>, where the black supply is still empty, it goes to
  \<^verbatim>\<open>gameOver\<close> with no \<^verbatim>\<open>startGame\<close>; with one prompt in the catalogue the forced round
  ends the game from \<^verbatim>\<open>judging\<close>. A disconnect removes a member of a session in
  \<^verbatim>\<open>gameOver\<close> that has other members. A valid \<^verbatim>\<open>startGame\<close> with no prompt in the
  selected packs goes to \<^verbatim>\<open>gameOver\<close>. And the test for \<^verbatim>\<open>judging\<close> compares two counts:
  after a member who has submitted leaves, the round is judged while \<^verbatim>\<open>s4\<close> has not
  submitted.
\<close>

theorem host_forces_round_outside_machine:
  "map_option view (lobbyAfter (threeStarted @
        [SubmitCards ''s1'' ''ABCDE'' (Some [''w_0'']),
         SubmitCards ''s3'' ''ABCDE'' (Some [''w_12''])]))
     = Some (judging, [''s1'', ''s2'', ''s3''], Some ''s2'', 2)
   \<and> map_option (\<lambda>l. (view l, roundWinnerInfo l)) (lobbyAfter (threeStarted @
        [SubmitCards ''s1'' ''ABCDE'' (Some [''w_0'']),
         SubmitCards ''s3'' ''ABCDE'' (Some [''w_12'']),
         RequestNextRound ''s1'' ''ABCDE'']))
     = Some ((playing, [''s1'', ''s2'', ''s3''], Some ''s3'', 0), None)
   \<and> map_option (\<lambda>l. (view l, roundWinnerInfo l)) (lobbyAfter (threeStarted @
        [SubmitCards ''s1'' ''ABCDE'' (Some [''w_0'']),
         SubmitCards ''s3'' ''ABCDE'' (Some [''w_12'']),
         Disconnect ''s2'']))
     = Some ((playing, [''s1'', ''s3''], Some ''s1'', 0), None)
   \<and> map_option view (lobbyAfter [CreateLobby ''s1'' ''Ann'' None])
     = Some (waiting, [''s1''], None, 0)
   \<and> map_option view (lobbyAfter [CreateLobby ''s1'' ''Ann'' None, RequestNextRound ''s1'' ''ABCDE''])
     = Some (gameOver, [''s1''], Some ''s1'', 0)
   \<and> map_option view (lobbyAfter [CreateLobby ''s1'' ''Ann'' None, JoinLobby ''s2'' ''ABCDE'' ''Bob'',
        RequestNextRound ''s1'' ''ABCDE''])
     = Some (gameOver, [''s1'', ''s2''], Some ''s1'', 0)
   \<and> map_option view (lobbyAfter [CreateLobby ''s1'' ''Ann'' None, JoinLobby ''s2'' ''ABCDE'' ''Bob'',
        RequestNextRound ''s1'' ''ABCDE'', Disconnect ''s2''])
     = Some (gameOver, [''s1''], Some ''s1'', 0)
   \<and> map_option view (lobbyAfter (emptyPackLobby @ [StartGame ''s1'' ''ABCDE'']))
     = Some (gameOver, [''s1'', ''s2'', ''s3''], Some ''s2'', 0)
   \<and> map_option view (lobbyAfter (fourStarted @
        [SubmitCards ''s1'' ''ABCDE'' (Some [''w_0'']), Disconnect ''s1'']))
     = Some (playing, [''s2'', ''s3'', ''s4''], Some ''s2'', 1)
   \<and> map_option (\<lambda>l. (view l, map (\<lambda>p. (pid p, submittedCards p \<noteq> None)) (nonCzars l)))
        (lobbyAfter (fourStarted @
          [SubmitCards ''s1'' ''ABCDE'' (Some [''w_0'']), Disconnect ''s1'',
           SubmitCards ''s3'' ''ABCDE'' (Some [''w_12''])]))
     = Some ((judging, [''s2'', ''s3'', ''s4''], Some ''s2'', 2), [(''s3'', True), (''s4'', False)])
   \<and> map_option view (case run (threeStarted @
        [SubmitCards ''s1'' ''ABCDE'' (Some [''w_0'']),
         SubmitCards ''s3'' ''ABCDE'' (Some [''w_12''])]) soloPromptBoot of
          Inl x \<Rightarrow> None | Inr w \<Rightarrow> getLobby w ''ABCDE'')
     = Some (judging, [''s1'', ''s2'', ''s3''], Some ''s2'', 2)
   \<and> map_option view (case run (threeStarted @
        [SubmitCards ''s1'' ''ABCDE'' (Some [''w_0'']),
         SubmitCards ''s3'' ''ABCDE'' (Some [''w_12'']),
         RequestNextRound ''s1'' ''ABCDE'']) soloPromptBoot of
          Inl x \<Rightarrow> None | Inr w \<Rightarrow> getLobby w ''ABCDE'')
     = Some (gameOver, [''s1'', ''s2'', ''s3''], Some ''s3'', 0)"
  by code_simp

text \<open>
  Claim C9, amended: the machine the handlers implement, in every state the server reaches
  from an empty registry. For one event that does not throw and a session that exists
  before it: if the session still exists, its game state stays or changes along
  \<open>mayFollow\<close> (from \<^verbatim>\<open>waiting\<close> to \<^verbatim>\<open>playing\<close> or \<^verbatim>\<open>gameOver\<close>, from \<^verbatim>\<open>playing\<close> to
  \<^verbatim>\<open>judging\<close> or \<^verbatim>\<open>gameOver\<close>, from \<^verbatim>\<open>judging\<close> to \<^verbatim>\<open>roundOver\<close>, \<^verbatim>\<open>gameOver\<close> or
  \<^verbatim>\<open>playing\<close>, from \<^verbatim>\<open>roundOver\<close> to \<^verbatim>\<open>playing\<close> or \<^verbatim>\<open>gameOver\<close>, never out of
  \<^verbatim>\<open>gameOver\<close>), and

  \<^item> \<^verbatim>\<open>waiting\<close> becomes \<^verbatim>\<open>playing\<close> only through a valid \<^verbatim>\<open>startGame\<close> (sent by the host,
    with at least three members), and \<^verbatim>\<open>gameOver\<close> only through such a \<^verbatim>\<open>startGame\<close> or the
    host's \<^verbatim>\<open>requestNextRound\<close>;
  \<^item> \<^verbatim>\<open>playing\<close> becomes \<^verbatim>\<open>judging\<close> only through a \<^verbatim>\<open>submitCards\<close> for this session that
    adds a submission, after which there are as many submissions as members who are not
    the czar;
  \<^item> \<^verbatim>\<open>judging\<close> becomes \<^verbatim>\<open>roundOver\<close> only through the czar's \<^verbatim>\<open>selectWinner\<close>,
    \<^verbatim>\<open>gameOver\<close> only through the czar's \<^verbatim>\<open>selectWinner\<close>, a disconnect or the host's
    \<^verbatim>\<open>requestNextRound\<close>, and \<^verbatim>\<open>playing\<close> only through the host's \<^verbatim>\<open>requestNextRound\<close> or
    the czar's disconnect;
  \<^item> only a disconnect changes a session in \<^verbatim>\<open>gameOver\<close>.

  If the session no longer exists, the event was the disconnect of its only member.
\<close>

theorem game_state_machine:
  assumes "reachable w" and "handle e w = Inr (w', out)" and "getLobby w c = Some l"
  shows "(\<forall>l'. getLobby w' c = Some l' \<longrightarrow>
            mayFollow (gameState l) (gameState l')
          \<and> (gameState l = waiting \<and> gameState l' = playing \<longrightarrow>
               e = StartGame (hostId l) c \<and> 3 \<le> length (players l))
          \<and> (gameState l = waiting \<and> gameState l' = gameOver \<longrightarrow>
               (e = StartGame (hostId l) c \<and> 3 \<le> length (players l))
               \<or> e = RequestNextRound (hostId l) c)
          \<and> (gameState l = playing \<and> gameState l' = judging \<longrightarrow>
               (\<exists>sid ids. e = SubmitCards sid c ids)
               \<and> length (roundSubmissions l') = Suc (length (roundSubmissions l))
               \<and> length (roundSubmissions l') = length (nonCzars l'))
          \<and> (gameState l = judging \<and> gameState l' = roundOver \<longrightarrow>
               (\<exists>wp. e = SelectWinner (the (czarId l)) c wp))
          \<and> (gameState l = judging \<and> gameState l' = gameOver \<longrightarrow>
               (\<exists>wp. e = SelectWinner (the (czarId l)) c wp) \<or> (\<exists>sid. e = Disconnect sid)
               \<or> e = RequestNextRound (hostId l) c)
          \<and> (gameState l = judging \<and> gameState l' = playing \<longrightarrow>
               e = RequestNextRound (hostId l) c \<or> e = Disconnect (the (czarId l)))
          \<and> (gameState l = gameOver \<and> l' \<noteq> l \<longrightarrow> (\<exists>sid. e = Disconnect sid)))
     \<and> (getLobby w' c = None \<longrightarrow> (\<exists>sid. e = Disconnect sid \<and> map pid (players l) = [sid]))"
proof (rule conjI)
  show "getLobby w' c = None \<longrightarrow> (\<exists>sid. e = Disconnect sid \<and> map pid (players l) = [sid])"
  proof (rule impI)
    assume gone: "getLobby w' c = None"
    have "\<not> (\<forall>sid. e \<noteq> Disconnect sid)"
    proof
      assume "\<forall>sid. e \<noteq> Disconnect sid"
      from lobby_survives[OF assms(2,3) this] gone show False by simp
    qed
    then obtain sid where e: "e = Disconnect sid" by auto
    with assms(2) have "disconnect sid w = Inr (w', out)" by simp
    from disconnect_removes[OF this assms(3) gone] have "map pid (players l) = [sid]" .
    with e show "\<exists>sid. e = Disconnect sid \<and> map pid (players l) = [sid]" by (intro exI conjI)
  qed
next
  show "\<forall>l'. getLobby w' c = Some l' \<longrightarrow>
            mayFollow (gameState l) (gameState l')
          \<and> (gameState l = waiting \<and> gameState l' = playing \<longrightarrow>
               e = StartGame (hostId l) c \<and> 3 \<le> length (players l))
          \<and> (gameState l = waiting \<and> gameState l' = gameOver \<longrightarrow>
               (e = StartGame (hostId l) c \<and> 3 \<le> length (players l))
               \<or> e = RequestNextRound (hostId l) c)
          \<and> (gameState l = playing \<and> gameState l' = judging \<longrightarrow>
               (\<exists>sid ids. e = SubmitCards sid c ids)
               \<and> length (roundSubmissions l') = Suc (length (roundSubmissions l))
               \<and> length (roundSubmissions l') = length (nonCzars l'))
          \<and> (gameState l = judging \<and> gameState l' = roundOver \<longrightarrow>
               (\<exists>wp. e = SelectWinner (the (czarId l)) c wp))
          \<and> (gameState l = judging \<and> gameState l' = gameOver \<longrightarrow>
               (\<exists>wp. e = SelectWinner (the (czarId l)) c wp) \<or> (\<exists>sid. e = Disconnect sid)
               \<or> e = RequestNextRound (hostId l) c)
          \<and> (gameState l = judging \<and> gameState l' = playing \<longrightarrow>
               e = RequestNextRound (hostId l) c \<or> e = Disconnect (the (czarId l)))
          \<and> (gameState l = gameOver \<and> l' \<noteq> l \<longrightarrow> (\<exists>sid. e = Disconnect sid))"
  proof (rule allI, rule impI)
    fix l'
    assume "getLobby w' c = Some l'"
    from game_state_all[OF assms this] show
       "mayFollow (gameState l) (gameState l')
          \<and> (gameState l = waiting \<and> gameState l' = playing \<longrightarrow>
               e = StartGame (hostId l) c \<and> 3 \<le> length (players l))
          \<and> (gameState l = waiting \<and> gameState l' = gameOver \<longrightarrow>
               (e = StartGame (hostId l) c \<and> 3 \<le> length (players l))
               \<or> e = RequestNextRound (hostId l) c)
          \<and> (gameState l = playing \<and> gameState l' = judging \<longrightarrow>
               (\<exists>sid ids. e = SubmitCards sid c ids)
               \<and> length (roundSubmissions l') = Suc (length (roundSubmissions l))
               \<and> length (roundSubmissions l') = length (nonCzars l'))
          \<and> (gameState l = judging \<and> gameState l' = roundOver \<longrightarrow>
               (\<exists>wp. e = SelectWinner (the (czarId l)) c wp))
          \<and> (gameState l = judging \<and> gameState l' = gameOver \<longrightarrow>
               (\<exists>wp. e = SelectWinner (the (czarId l)) c wp) \<or> (\<exists>sid. e = Disconnect sid)
               \<or> e = RequestNextRound (hostId l) c)
          \<and> (gameState l = judging \<and> gameState l' = playing \<longrightarrow>
               e = RequestNextRound (hostId l) c \<or> e = Disconnect (the (czarId l)))
          \<and> (gameState l = gameOver \<and> l' \<noteq> l \<longrightarrow> (\<exists>sid. e = Disconnect sid))" .
  qed
qed

theorem game_state_machine_witness:
  "gameState (the (getLobby firstSubmitted ''ABCDE'')) = playing
   \<and> gameState (the (getLobby
        (fst (projr (handle (SubmitCards ''s3'' ''ABCDE'' (Some [''w_12''])) firstSubmitted)))
        ''ABCDE'')) = judging
   \<and> mayFollow (gameState (the (getLobby firstSubmitted ''ABCDE'')))
        (gameState (the (getLobby
          (fst (projr (handle (SubmitCards ''s3'' ''ABCDE'' (Some [''w_12''])) firstSubmitted)))
          ''ABCDE'')))
   \<and> length (roundSubmissions (the (getLobby
        (fst (projr (handle (SubmitCards ''s3'' ''ABCDE'' (Some [''w_12''])) firstSubmitted)))
        ''ABCDE'')))
     = length (nonCzars (the (getLobby
        (fst (projr (handle (SubmitCards ''s3'' ''ABCDE'' (Some [''w_12''])) firstSubmitted)))
        ''ABCDE'')))"
proof -
  let ?es = "threeStarted @ [SubmitCards ''s1'' ''ABCDE'' (Some [''w_0''])]"
  let ?e = "SubmitCards ''s3'' ''ABCDE'' (Some [''w_12''])"
  let ?r = "handle ?e firstSubmitted"
  let ?w' = "fst (projr ?r)"
  let ?l = "the (getLobby firstSubmitted ''ABCDE'')"
  let ?l' = "the (getLobby ?w' ''ABCDE'')"
  have "\<not> isl (run ?es boot)" by code_simp
  then have "run ?es boot = Inr firstSubmitted"
    unfolding firstSubmitted_def by (cases "run ?es boot") auto
  moreover have "reachable boot" by (rule reachable.fresh) (simp add: boot_def)
  ultimately have r: "reachable firstSubmitted" by (rule run_reachable[rotated])
  have "\<not> isl ?r" by code_simp
  then have h0: "?r = Inr (?w', snd (projr ?r))" by (cases ?r) auto
  have h1: "getLobby firstSubmitted ''ABCDE'' = Some ?l" by code_simp
  have h2: "getLobby ?w' ''ABCDE'' = Some ?l'" by code_simp
  have g1: "gameState ?l = playing" by code_simp
  have g2: "gameState ?l' = judging" by code_simp
  from game_state_machine[OF r h0 h1] h2
  have "mayFollow (gameState ?l) (gameState ?l')"
    and "gameState ?l = playing \<and> gameState ?l' = judging \<longrightarrow>
           length (roundSubmissions ?l') = length (nonCzars ?l')"
    by blast+
  with g1 g2 show ?thesis by blast
qed

end
